(* ===== verification/Go_Prelude.thy ===== *)
theory Go_Prelude
  imports Main "HOL-Library.Word"
begin

text \<open>
  Shared vocabulary of the development: what a Go function can do besides returning a value
  (return an \<open>error\<close>, or panic), Go's \<open>for\<close> loops with early exit, strings as
  byte sequences, and byte slices with their capacity. The two collections of facts declared
  here carry the proofs of the component theories:
  \<^item> \<open>go_loop\<close>: how loops and sequencing evaluate;
  \<^item> \<open>go_buf\<close>: lengths and contents of buffers that are written in place.
\<close>

named_theorems go_loop
named_theorems go_buf

subsection \<open>Outcomes\<close>

text \<open>
  An \<open>error\<close> value that a function of the repository constructs is named after its
  message; errors that a library or user code hands back are \<open>External\<close>.
  A panic that nothing in the repository recovers from ends the process.
\<close>

datatype gerror =
    FrameTooShort string
  | UnsupportedType string
  | InvalidDefinition
  | InvalidSchemaName string
  | InvalidArrayOnWire
  | UnsupportedOnWire "8 word"
  | ConnectionClosed
  | External string

datatype gpanic =
  IndexOutOfRange | SliceOutOfRange | MakeSliceRange | NilCall | StackOverflow | CloseOfClosedChannel
  | NonPositiveTicker | GoPanic gerror

datatype 'a res = Ok 'a | Err gerror | Panic gpanic

definition andThen :: "'a res \<Rightarrow> ('a \<Rightarrow> 'b res) \<Rightarrow> 'b res" where
  "andThen m f = (case m of Ok x \<Rightarrow> f x | Err e \<Rightarrow> Err e | Panic p \<Rightarrow> Panic p)"

lemma andThen_simps [simp, go_loop]:
  "andThen (Ok x) f = f x"
  "andThen (Err e) f = Err e"
  "andThen (Panic p) f = Panic p"
  by (simp_all add: andThen_def)

lemma andThen_eq_Ok [simp]: "andThen m f = Ok y \<longleftrightarrow> (\<exists>x. m = Ok x \<and> f x = Ok y)"
  by (cases m) simp_all

lemma andThen_eq_Err [simp]:
  "andThen m f = Err e \<longleftrightarrow> m = Err e \<or> (\<exists>x. m = Ok x \<and> f x = Err e)"
  by (cases m) simp_all

lemma andThen_eq_Panic [simp]:
  "andThen m f = Panic p \<longleftrightarrow> m = Panic p \<or> (\<exists>x. m = Ok x \<and> f x = Panic p)"
  by (cases m) simp_all

lemma andThen_assoc: "andThen (andThen m f) g = andThen m (\<lambda>x. andThen (f x) g)"
  by (cases m) simp_all

lemma andThen_Ok_id [simp]: "andThen m Ok = m"
  by (cases m) simp_all

lemma andThen_cong [fundef_cong]:
  "m = m' \<Longrightarrow> (\<And>x. m' = Ok x \<Longrightarrow> f x = f' x) \<Longrightarrow> andThen m f = andThen m' f'"
  by (cases m') simp_all

text \<open>A Go function of the repository returns without panicking.\<close>

definition no_panic :: "'a res \<Rightarrow> bool" where
  "no_panic m = (case m of Panic _ \<Rightarrow> False | _ \<Rightarrow> True)"

lemma no_panic_simps [simp]:
  "no_panic (Ok x)" "no_panic (Err e)" "\<not> no_panic (Panic p)"
  by (simp_all add: no_panic_def)

lemma no_panic_iff: "no_panic m \<longleftrightarrow> (\<forall>p. m \<noteq> Panic p)"
  by (cases m) simp_all

subsection \<open>Loops with early exit\<close>

text \<open>\<open>for _, x := range xs { ... return err ... }\<close> over a loop state.\<close>

fun foldm :: "('x \<Rightarrow> 's \<Rightarrow> 's res) \<Rightarrow> 'x list \<Rightarrow> 's \<Rightarrow> 's res" where
  "foldm f [] s = Ok s"
| "foldm f (x # xs) s = andThen (f x s) (foldm f xs)"

lemma foldm_cong [fundef_cong]:
  "xs = ys \<Longrightarrow> s = t \<Longrightarrow> (\<And>x s. x \<in> set ys \<Longrightarrow> f x s = g x s) \<Longrightarrow> foldm f xs s = foldm g ys t"
proof (induction xs arbitrary: ys s t)
  case Nil
  then show ?case by auto
next
  case (Cons x xs)
  then show ?case by (auto intro!: andThen_cong)
qed

lemma foldm_append: "foldm f (xs @ ys) s = andThen (foldm f xs s) (foldm f ys)"
  by (induction xs arbitrary: s) (simp_all add: andThen_assoc cong: andThen_cong)

text \<open>\<open>for i := 0; i < n; i++ { ... return err ... }\<close> over a loop state.\<close>

fun replm :: "nat \<Rightarrow> ('s \<Rightarrow> 's res) \<Rightarrow> 's \<Rightarrow> 's res" where
  "replm 0 f s = Ok s"
| "replm (Suc n) f s = andThen (f s) (replm n f)"

subsection \<open>Strings and bytes\<close>

type_synonym byte = "8 word"
type_synonym gostring = string

text \<open>A Go string is a sequence of bytes; \<open>[]byte(s)\<close> and \<open>string(b)\<close> copy it.\<close>

definition str_bytes :: "gostring \<Rightarrow> byte list" where
  "str_bytes s = map (\<lambda>c. word_of_nat (of_char c)) s"

definition bytes_str :: "byte list \<Rightarrow> gostring" where
  "bytes_str b = map (\<lambda>w. char_of (unat w)) b"

lemma length_str_bytes [simp, go_buf]: "length (str_bytes s) = length s"
  by (simp add: str_bytes_def)

lemma length_bytes_str [simp, go_buf]: "length (bytes_str b) = length b"
  by (simp add: bytes_str_def)

lemma unat_word_small: "n < 2 ^ LENGTH('a) \<Longrightarrow> unat (word_of_nat n :: 'a::len word) = n"
  by (simp add: unat_of_nat take_bit_nat_eq_self)

lemma of_char_less_256: "(of_char c :: nat) < 256"
  by (cases c) (auto simp: of_char_def horner_sum_simps split: bool.splits)

lemma byte_char [simp]: "char_of (unat (word_of_nat (of_char c) :: byte)) = c"
proof -
  have "unat (word_of_nat (of_char c) :: byte) = of_char c"
    using of_char_less_256 [of c] by (intro unat_word_small) simp
  then show ?thesis by simp
qed

lemma char_byte [simp]: "word_of_nat (of_char (char_of (unat (w :: byte)))) = w"
proof -
  have "unat w < 2 ^ LENGTH(8)" by (rule unsigned_less)
  then have "unat w mod 256 = unat w" by simp
  then show ?thesis by simp
qed

lemma bytes_str_bytes [simp]: "bytes_str (str_bytes s) = s"
  by (simp add: bytes_str_def str_bytes_def comp_def)

lemma str_bytes_str [simp]: "str_bytes (bytes_str b) = b"
  by (simp add: bytes_str_def str_bytes_def comp_def del: of_char_of)

subsection \<open>Slices\<close>

text \<open>
  A byte slice as its reader sees it: the \<open>len\<close> bytes it holds and the bytes of the
  backing array between \<open>len\<close> and \<open>cap\<close>. Indexing is checked against \<open>len\<close>,
  but re-slicing \<open>b[i:j]\<close> is checked against \<open>cap\<close> only, so it can reveal the
  spare bytes.
\<close>

record slice =
  sl_data :: "byte list"
  sl_spare :: "byte list"

definition sl_len :: "slice \<Rightarrow> nat" where
  "sl_len b = length (sl_data b)"

definition sl_cap :: "slice \<Rightarrow> nat" where
  "sl_cap b = length (sl_data b) + length (sl_spare b)"

definition full_slice :: "byte list \<Rightarrow> slice" where
  "full_slice bs = \<lparr>sl_data = bs, sl_spare = []\<rparr>"

text \<open>\<open>b[i]\<close>\<close>

definition sl_index :: "slice \<Rightarrow> nat \<Rightarrow> byte res" where
  "sl_index b i = (if i < sl_len b then Ok (sl_data b ! i) else Panic IndexOutOfRange)"

text \<open>\<open>b[i:]\<close>, whose upper bound is \<open>len(b)\<close>\<close>

definition sl_from :: "slice \<Rightarrow> nat \<Rightarrow> slice res" where
  "sl_from b i =
     (if i \<le> sl_len b then Ok (b\<lparr>sl_data := drop i (sl_data b)\<rparr>) else Panic SliceOutOfRange)"

text \<open>\<open>b[i:j]\<close>, whose upper bound may be anything up to \<open>cap(b)\<close>\<close>

definition sl_range :: "slice \<Rightarrow> nat \<Rightarrow> nat \<Rightarrow> slice res" where
  "sl_range b i j =
     (if i \<le> j \<and> j \<le> sl_cap b
      then (let whole = sl_data b @ sl_spare b
            in Ok \<lparr>sl_data = take (j - i) (drop i whole), sl_spare = drop j whole\<rparr>)
      else Panic SliceOutOfRange)"

lemma sl_index_Ok [simp]:
  "drop i (sl_data b) = x # xs \<Longrightarrow> sl_index b i = Ok x"
  by (auto simp: sl_index_def sl_len_def nth_via_drop)
     (metis drop_eq_Nil list.distinct(1) not_less)

lemma sl_from_Ok [simp]:
  "i \<le> length (sl_data b) \<Longrightarrow> sl_from b i = Ok (b\<lparr>sl_data := drop i (sl_data b)\<rparr>)"
  by (simp add: sl_from_def sl_len_def)

lemma sl_range_data:
  assumes "drop i (sl_data b) = xs @ ys" and "j = i + length xs" and "i \<le> length (sl_data b)"
  shows "\<exists>sp. sl_range b i j = Ok \<lparr>sl_data = xs, sl_spare = sp\<rparr>"
proof -
  have "length (drop i (sl_data b)) = length xs + length ys" using assms(1) by simp
  then have "i + length xs \<le> length (sl_data b)" using assms(3) by simp
  then show ?thesis
    using assms by (auto simp: sl_range_def sl_cap_def Let_def)
qed

subsection \<open>Writing into a buffer\<close>

text \<open>
  \<open>overwrite buf off bs\<close> is \<open>buf\<close> with the bytes from \<open>off\<close> on replaced by
  \<open>bs\<close>; a \<open>copy(buf[off:], bs)\<close> stops at the end of the buffer.
\<close>

definition overwrite :: "byte list \<Rightarrow> nat \<Rightarrow> byte list \<Rightarrow> byte list" where
  "overwrite buf off bs = take off buf @ bs @ drop (off + length bs) buf"

definition buf_set :: "byte list \<Rightarrow> nat \<Rightarrow> byte \<Rightarrow> byte list res" where
  "buf_set buf off x = (if off < length buf then Ok (buf[off := x]) else Panic IndexOutOfRange)"

definition buf_copy :: "byte list \<Rightarrow> nat \<Rightarrow> byte list \<Rightarrow> byte list res" where
  "buf_copy buf off src =
     (if off \<le> length buf then Ok (overwrite buf off (take (length buf - off) src))
      else Panic SliceOutOfRange)"

lemma length_overwrite [simp, go_buf]:
  "off + length bs \<le> length buf \<Longrightarrow> length (overwrite buf off bs) = length buf"
  by (simp add: overwrite_def)

lemma overwrite_Nil [simp]: "overwrite buf off [] = buf"
  by (simp add: overwrite_def)

lemma overwrite_overwrite [simp]:
  assumes "off + length xs \<le> length buf"
  shows "overwrite (overwrite buf off xs) (off + length xs) ys = overwrite buf off (xs @ ys)"
  using assms by (simp add: overwrite_def) (simp add: algebra_simps)

lemma overwrite_all: "length bs = length buf \<Longrightarrow> overwrite buf 0 bs = bs"
  by (simp add: overwrite_def)

lemma buf_set_Ok [simp, go_buf]:
  "off < length buf \<Longrightarrow> buf_set buf off x = Ok (overwrite buf off [x])"
  by (simp add: buf_set_def overwrite_def upd_conv_take_nth_drop)

lemma buf_copy_Ok [simp, go_buf]:
  "off + length bs \<le> length buf \<Longrightarrow> buf_copy buf off bs = Ok (overwrite buf off bs)"
  by (simp add: buf_copy_def)

end
