(* ===== verification/Big_Endian.thy ===== *)
theory Big_Endian
  imports Go_Prelude
begin

unbundle bit_operations_syntax

text \<open>
  The calls of \<open>encoding/binary\<close> the protocol package makes:
  \<open>binary.BigEndian.PutUint16/32/64\<close> and \<open>Uint16/32/64\<close>. Each is given by the
  shifts the standard library performs, and the interface the codecs rely on is the locale
  \<open>fixed_width\<close>: a value occupies exactly \<open>width\<close> bytes and reading it back
  from any buffer that starts with those bytes gives the value.
\<close>

subsection \<open>The fixed-width interface\<close>

locale fixed_width =
  fixes width :: nat
    and put :: "'v \<Rightarrow> byte list"
    and get :: "byte list \<Rightarrow> 'v"
  assumes length_put: "length (put v) = width"
    and get_put: "get (put v @ rest) = v"
    and put_get: "width \<le> length bs \<Longrightarrow> put (get bs) = take width bs"
begin

text \<open>Writing at an offset of a buffer that has the room.\<close>

lemma put_at:
  "off + width \<le> length buf \<Longrightarrow> length (overwrite buf off (put v)) = length buf"
  by (simp add: length_put)

lemma get_at: "drop off bs = put v @ rest \<Longrightarrow> get (drop off bs) = v"
  by (simp add: get_put)

lemma put_inject: "put v = put w \<longleftrightarrow> v = w"
  by (metis get_put)

lemma get_determined: "width \<le> length bs \<Longrightarrow> bs = put (get bs) @ drop width bs"
  by (simp add: put_get)

end

subsection \<open>The standard library's operations\<close>

definition be16 :: "16 word \<Rightarrow> byte list" where
  "be16 w = [ucast (drop_bit 8 w), ucast w]"

definition be32 :: "32 word \<Rightarrow> byte list" where
  "be32 w = [ucast (drop_bit 24 w), ucast (drop_bit 16 w), ucast (drop_bit 8 w), ucast w]"

definition be64 :: "64 word \<Rightarrow> byte list" where
  "be64 w = [ucast (drop_bit 56 w), ucast (drop_bit 48 w), ucast (drop_bit 40 w),
     ucast (drop_bit 32 w), ucast (drop_bit 24 w), ucast (drop_bit 16 w),
     ucast (drop_bit 8 w), ucast w]"

definition of_be16 :: "byte list \<Rightarrow> 16 word" where
  "of_be16 b = ucast (b ! 1) OR push_bit 8 (ucast (b ! 0))"

definition of_be32 :: "byte list \<Rightarrow> 32 word" where
  "of_be32 b = ucast (b ! 3) OR push_bit 8 (ucast (b ! 2)) OR push_bit 16 (ucast (b ! 1))
     OR push_bit 24 (ucast (b ! 0))"

definition of_be64 :: "byte list \<Rightarrow> 64 word" where
  "of_be64 b = ucast (b ! 7) OR push_bit 8 (ucast (b ! 6)) OR push_bit 16 (ucast (b ! 5))
     OR push_bit 24 (ucast (b ! 4)) OR push_bit 32 (ucast (b ! 3)) OR push_bit 40 (ucast (b ! 2))
     OR push_bit 48 (ucast (b ! 1)) OR push_bit 56 (ucast (b ! 0))"

text \<open>Reassembling a word from its bytes, bit by bit.\<close>

lemma bit_byte_at:
  fixes w :: "'a::len word"
  assumes "n < LENGTH('a)"
  shows "bit (push_bit k (ucast (ucast (drop_bit k w) :: byte)) :: 'a word) n
    \<longleftrightarrow> k \<le> n \<and> n < k + 8 \<and> bit w n"
  using assms by (auto simp: bit_simps)

lemma bit_low_byte:
  fixes w :: "'a::len word"
  assumes "n < LENGTH('a)"
  shows "bit (ucast (ucast w :: byte) :: 'a word) n \<longleftrightarrow> n < 8 \<and> bit w n"
  using assms by (auto simp: bit_simps)

lemma byte_high_bit: "\<not> bit (b :: byte) (8 + n)" "\<not> bit (b :: byte) (16 + n)"
  "\<not> bit (b :: byte) (24 + n)" "\<not> bit (b :: byte) (32 + n)" "\<not> bit (b :: byte) (40 + n)"
  "\<not> bit (b :: byte) (48 + n)" "\<not> bit (b :: byte) (56 + n)"
  by (auto dest: bit_imp_le_length)

lemmas byte_bits = bit_byte_at bit_low_byte bit_or_iff

lemma be16_join:
  "ucast (ucast w :: byte) OR push_bit 8 (ucast (ucast (drop_bit 8 w) :: byte)) = (w :: 16 word)"
  by (rule bit_word_eqI) (simp add: byte_bits, arith)

lemma be32_join:
  "ucast (ucast w :: byte) OR push_bit 8 (ucast (ucast (drop_bit 8 w) :: byte))
     OR push_bit 16 (ucast (ucast (drop_bit 16 w) :: byte))
     OR push_bit 24 (ucast (ucast (drop_bit 24 w) :: byte)) = (w :: 32 word)"
  by (rule bit_word_eqI) (simp add: byte_bits, arith)

lemma be64_join:
  "ucast (ucast w :: byte) OR push_bit 8 (ucast (ucast (drop_bit 8 w) :: byte))
     OR push_bit 16 (ucast (ucast (drop_bit 16 w) :: byte))
     OR push_bit 24 (ucast (ucast (drop_bit 24 w) :: byte))
     OR push_bit 32 (ucast (ucast (drop_bit 32 w) :: byte))
     OR push_bit 40 (ucast (ucast (drop_bit 40 w) :: byte))
     OR push_bit 48 (ucast (ucast (drop_bit 48 w) :: byte))
     OR push_bit 56 (ucast (ucast (drop_bit 56 w) :: byte)) = (w :: 64 word)"
  by (rule bit_word_eqI) (simp add: byte_bits, arith)

text \<open>A long enough list starts with as many bytes as are read.\<close>

lemma list_ge_2: "2 \<le> length bs \<Longrightarrow> \<exists>a b r. bs = a # b # r"
  by (cases bs; cases "tl bs") auto

lemma list_ge_4: "4 \<le> length bs \<Longrightarrow> \<exists>a b c d r. bs = a # b # c # d # r"
  using list_ge_2 [of bs] list_ge_2 [of "drop 2 bs"] by auto

lemma list_ge_8: "8 \<le> length bs \<Longrightarrow> \<exists>a b c d e f g h r. bs = a # b # c # d # e # f # g # h # r"
  using list_ge_4 [of bs] list_ge_4 [of "drop 4 bs"] by auto

lemma be16_bytes: "be16 (of_be16 (a # b # r)) = [a, b]"
  by (auto simp: be16_def of_be16_def intro!: bit_word_eqI simp: bit_simps byte_high_bit)

lemma be32_bytes: "be32 (of_be32 (a # b # c # d # r)) = [a, b, c, d]"
  by (auto simp: be32_def of_be32_def intro!: bit_word_eqI simp: bit_simps byte_high_bit)

lemma be64_bytes:
  "be64 (of_be64 (a # b # c # d # e # f # g # h # r)) = [a, b, c, d, e, f, g, h]"
  by (auto simp: be64_def of_be64_def intro!: bit_word_eqI simp: bit_simps byte_high_bit)

interpretation u16: fixed_width 2 be16 of_be16
proof unfold_locales
  fix v rest and bs :: "byte list"
  show "length (be16 v) = 2" by (simp add: be16_def)
  show "of_be16 (be16 v @ rest) = v" by (simp add: be16_def of_be16_def be16_join)
  show "be16 (of_be16 bs) = take 2 bs" if "2 \<le> length bs"
    using list_ge_2 [OF that] by (auto simp: be16_bytes)
qed

interpretation u32: fixed_width 4 be32 of_be32
proof unfold_locales
  fix v rest and bs :: "byte list"
  show "length (be32 v) = 4" by (simp add: be32_def)
  show "of_be32 (be32 v @ rest) = v" by (simp add: be32_def of_be32_def be32_join)
  show "be32 (of_be32 bs) = take 4 bs" if "4 \<le> length bs"
    using list_ge_4 [OF that] by (auto simp: be32_bytes)
qed

interpretation u64: fixed_width 8 be64 of_be64
proof unfold_locales
  fix v rest and bs :: "byte list"
  show "length (be64 v) = 8" by (simp add: be64_def)
  show "of_be64 (be64 v @ rest) = v" by (simp add: be64_def of_be64_def be64_join)
  show "be64 (of_be64 bs) = take 8 bs" if "8 \<le> length bs"
    using list_ge_8 [OF that] by (auto simp: be64_bytes)
qed

declare u16.length_put [simp] u32.length_put [simp] u64.length_put [simp]
declare u16.get_put [simp] u32.get_put [simp] u64.get_put [simp]

subsection \<open>Reading and writing at an offset\<close>

text \<open>
  \<open>Uint32(b[off:])\<close> panics when \<open>off\<close> is past the length (slicing) and when fewer
  than four bytes are left (the library's own bounds check); \<open>PutUint32(b[off:], v)\<close>
  does the same.
\<close>

definition get_be :: "nat \<Rightarrow> (byte list \<Rightarrow> 'v) \<Rightarrow> slice \<Rightarrow> nat \<Rightarrow> 'v res" where
  "get_be n get b off =
     andThen (sl_from b off) (\<lambda>b'. if n \<le> sl_len b' then Ok (get (sl_data b')) else Panic IndexOutOfRange)"

definition put_be :: "byte list \<Rightarrow> nat \<Rightarrow> byte list \<Rightarrow> byte list res" where
  "put_be buf off bs =
     (if off \<le> length buf
      then if off + length bs \<le> length buf then Ok (overwrite buf off bs) else Panic IndexOutOfRange
      else Panic SliceOutOfRange)"

definition get_u16 :: "slice \<Rightarrow> nat \<Rightarrow> 16 word res" where "get_u16 = get_be 2 of_be16"
definition get_u32 :: "slice \<Rightarrow> nat \<Rightarrow> 32 word res" where "get_u32 = get_be 4 of_be32"
definition get_u64 :: "slice \<Rightarrow> nat \<Rightarrow> 64 word res" where "get_u64 = get_be 8 of_be64"

lemma put_be_Ok [simp, go_buf]:
  "off + length bs \<le> length buf \<Longrightarrow> put_be buf off bs = Ok (overwrite buf off bs)"
  by (simp add: put_be_def)

lemma drop_nonempty_le: "drop off xs = ys \<Longrightarrow> ys \<noteq> [] \<Longrightarrow> off \<le> length xs"
  by (cases "off \<le> length xs") auto

lemma get_u16_Ok [simp]:
  assumes "drop off (sl_data b) = be16 w @ rest" shows "get_u16 b off = Ok w"
proof -
  have "off \<le> length (sl_data b)"
    using drop_nonempty_le [OF assms] by (simp add: be16_def)
  then show ?thesis using assms by (simp add: get_u16_def get_be_def sl_len_def)
qed

lemma get_u32_Ok [simp]:
  assumes "drop off (sl_data b) = be32 w @ rest" shows "get_u32 b off = Ok w"
proof -
  have "off \<le> length (sl_data b)"
    using drop_nonempty_le [OF assms] by (simp add: be32_def)
  then show ?thesis using assms by (simp add: get_u32_def get_be_def sl_len_def)
qed

lemma get_u64_Ok [simp]:
  assumes "drop off (sl_data b) = be64 w @ rest" shows "get_u64 b off = Ok w"
proof -
  have "off \<le> length (sl_data b)"
    using drop_nonempty_le [OF assms] by (simp add: be64_def)
  then show ?thesis using assms by (simp add: get_u64_def get_be_def sl_len_def)
qed

text \<open>What a read that succeeded says about the buffer.\<close>

lemma get_be_OkD: "get_be n get b off = Ok v \<Longrightarrow> off + n \<le> sl_len b \<and> v = get (drop off (sl_data b))"
  by (auto simp: get_be_def sl_from_def sl_len_def split: if_splits)

lemmas get_word_defs = get_u16_def get_u32_def get_u64_def

end
