(* ===== verification/Go_Float.thy ===== *)
theory Go_Float
  imports Go_Prelude
begin

text \<open>
  Go's numeric conversions that involve floating point, on IEEE 754 bit patterns: a
  \<open>float64\<close> is its 64 bits (what \<open>math.Float64bits\<close> returns), a \<open>float32\<close> its 32.
  \<^item> float to integer discards the fraction; when the value does not fit (or is not a number)
    the Go specification leaves the result to the implementation, so it is a parameter;
  \<^item> integer to float rounds to nearest, ties to even;
  \<^item> \<open>float32\<close> to \<open>float64\<close> is exact.
  The lemmas show that integers up to \<open>2 ^ 53\<close> in magnitude survive the trip through
  \<open>float64\<close>.
\<close>

type_synonym f64 = "64 word"
type_synonym f32 = "32 word"

subsection \<open>Float to integer\<close>

definition f64_trunc :: "f64 \<Rightarrow> int option" where
  "f64_trunc w =
     (let n = unat w;
          neg = 2 ^ 63 \<le> n;
          e = (n div 2 ^ 52) mod 2 ^ 11;
          m = n mod 2 ^ 52;
          mant = (if e = 0 then m else m + 2 ^ 52);
          ex = (if e = 0 then 1 else e);
          mag = (if 1075 \<le> ex then mant * 2 ^ (ex - 1075) else mant div 2 ^ (1075 - ex))
      in if e = 2047 then None else Some (if neg then - int mag else int mag))"

definition f32_trunc :: "f32 \<Rightarrow> int option" where
  "f32_trunc w =
     (let n = unat w;
          neg = 2 ^ 31 \<le> n;
          e = (n div 2 ^ 23) mod 2 ^ 8;
          m = n mod 2 ^ 23;
          mant = (if e = 0 then m else m + 2 ^ 23);
          ex = (if e = 0 then 1 else e);
          mag = (if 150 \<le> ex then mant * 2 ^ (ex - 150) else mant div 2 ^ (150 - ex))
      in if e = 255 then None else Some (if neg then - int mag else int mag))"

text \<open>
  \<open>uint64(t)\<close> and \<open>int64(t)\<close>; \<open>oor\<close> is what the machine does when the truncated
  value does not fit the target type.
\<close>

definition trunc_u64 :: "('f \<Rightarrow> int option) \<Rightarrow> ('f \<Rightarrow> 64 word) \<Rightarrow> 'f \<Rightarrow> 64 word" where
  "trunc_u64 tr oor x =
     (case tr x of None \<Rightarrow> oor x
      | Some i \<Rightarrow> if 0 \<le> i \<and> i < 2 ^ 64 then word_of_int i else oor x)"

definition trunc_i64 :: "('f \<Rightarrow> int option) \<Rightarrow> ('f \<Rightarrow> 64 word) \<Rightarrow> 'f \<Rightarrow> 64 word" where
  "trunc_i64 tr oor x =
     (case tr x of None \<Rightarrow> oor x
      | Some i \<Rightarrow> if - (2 ^ 63) \<le> i \<and> i < 2 ^ 63 then word_of_int i else oor x)"

subsection \<open>Integer to float\<close>

fun ilog2 :: "nat \<Rightarrow> nat" where
  "ilog2 n = (if n < 2 then 0 else Suc (ilog2 (n div 2)))"

declare ilog2.simps [simp del]

lemma ilog2_bounds: "0 < n \<Longrightarrow> 2 ^ ilog2 n \<le> n \<and> n < 2 ^ Suc (ilog2 n)"
proof (induction n rule: ilog2.induct)
  case (1 n)
  show ?case
  proof (cases "n < 2")
    case True
    with "1.prems" show ?thesis by (simp add: ilog2.simps [of n])
  next
    case False
    then have "2 ^ ilog2 (n div 2) \<le> n div 2 \<and> n div 2 < 2 ^ Suc (ilog2 (n div 2))"
      using "1.IH" by simp
    with False show ?thesis by (auto simp: ilog2.simps [of n])
  qed
qed

lemma ilog2_less: "0 < n \<Longrightarrow> n < 2 ^ k \<Longrightarrow> ilog2 n < k"
  using ilog2_bounds [of n] by (meson le_less_trans one_less_numeral_iff power_less_imp_less_exp semiring_norm(76))

text \<open>
  The magnitude's bit pattern without the sign: exponent field and fraction in one number, so
  that a carry out of the rounded fraction moves into the exponent.
\<close>

definition f64_mag_bits :: "nat \<Rightarrow> nat" where
  "f64_mag_bits n =
     (if n = 0 then 0
      else let k = ilog2 n in
        if k \<le> 52 then (k + 1023) * 2 ^ 52 + (n - 2 ^ k) * 2 ^ (52 - k)
        else let sh = k - 52; q = n div 2 ^ sh; r = n mod 2 ^ sh; half = 2 ^ (sh - 1);
                 q' = (if half < r \<or> (r = half \<and> odd q) then q + 1 else q)
             in (k + 1023) * 2 ^ 52 + (q' - 2 ^ 52))"

definition f64_of_int :: "int \<Rightarrow> f64" where
  "f64_of_int i =
     (if i < 0 then word_of_nat (2 ^ 63 + f64_mag_bits (nat (- i)))
      else word_of_nat (f64_mag_bits (nat i)))"

subsection \<open>float32 to float64\<close>

text \<open>
  Exact on every number, subnormal ones included; an infinity stays one, and a NaN keeps its
  payload and becomes quiet, as the conversion instructions do it.
\<close>

definition f64_of_f32 :: "f32 \<Rightarrow> f64" where
  "f64_of_f32 w =
     (let n = unat w;
          s = (if 2 ^ 31 \<le> n then 2 ^ 63 else 0);
          e = (n div 2 ^ 23) mod 2 ^ 8;
          m = n mod 2 ^ 23;
          mag = (if e = 255 then 2047 * 2 ^ 52 + (if m = 0 then 0
                   else (m mod 2 ^ 22) * 2 ^ 29 + 2 ^ 51)
                 else if e = 0 then (if m = 0 then 0
                   else let k = ilog2 m in (k + 874) * 2 ^ 52 + (m - 2 ^ k) * 2 ^ (52 - k))
                 else (e + 896) * 2 ^ 52 + m * 2 ^ 29)
      in word_of_nat (s + mag))"

subsection \<open>Integers survive\<close>

lemma f64_mag_bits_small:
  assumes "0 < n" and "n < 2 ^ 53"
  shows "\<exists>k m. k \<le> 52 \<and> n = 2 ^ k + m \<and> m < 2 ^ k
    \<and> f64_mag_bits n = (k + 1023) * 2 ^ 52 + m * 2 ^ (52 - k)"
proof -
  let ?k = "ilog2 n"
  have k: "?k \<le> 52" using ilog2_less [OF assms] by simp
  have b: "2 ^ ?k \<le> n" "n < 2 * 2 ^ ?k" using ilog2_bounds [OF assms(1)] by simp_all
  show ?thesis
    using k b assms(1)
    by (intro exI [of _ ?k] exI [of _ "n - 2 ^ ?k"]) (simp add: f64_mag_bits_def Let_def)
qed

lemma frac_fits: "(k::nat) \<le> 52 \<Longrightarrow> (m::nat) < 2 ^ k \<Longrightarrow> m * 2 ^ (52 - k) < 2 ^ 52"
proof -
  assume "k \<le> 52" "m < (2::nat) ^ k"
  then have "m * 2 ^ (52 - k) < 2 ^ k * 2 ^ (52 - k)" by simp
  also have "\<dots> = 2 ^ 52" using \<open>k \<le> 52\<close> by (simp flip: power_add)
  finally show ?thesis .
qed

text \<open>Reading a normal pattern back field by field.\<close>

lemma f64_trunc_normal:
  assumes k: "k \<le> 52" and m: "m < 2 ^ k" and s: "s = 0 \<or> s = (2::nat) ^ 63"
  shows "f64_trunc (word_of_nat (s + ((k + 1023) * 2 ^ 52 + m * 2 ^ (52 - k))))
    = Some (if s = 0 then int (2 ^ k + m) else - int (2 ^ k + m))"
proof -
  define f where "f = m * 2 ^ (52 - k)"
  define n where "n = s + ((k + 1023) * 2 ^ 52 + f)"
  have f: "f < 2 ^ 52" unfolding f_def by (rule frac_fits [OF k m])
  have un: "unat (word_of_nat n :: f64) = n"
  proof (rule unat_word_small)
    show "n < 2 ^ LENGTH(64)" using f k s by (auto simp: n_def)
  qed
  obtain t where t: "s = t * 2 ^ 52" "t = 0 \<or> t = 2048" using s by fastforce
  have split: "n = f + 2 ^ 52 * (t + k + 1023)" by (simp add: n_def t(1) algebra_simps)
  have "n div 2 ^ 52 = t + k + 1023" unfolding split using f by simp
  moreover have "(t + k + 1023) mod 2048 = k + 1023" 
    using t(2) k mod_add_self1 [of 2048 "k + 1023"] by (auto simp del: mod_add_self1)
  ultimately have e: "(n div 2 ^ 52) mod 2 ^ 11 = k + 1023" by simp
  have fr: "n mod 2 ^ 52 = f"
    unfolding split by (subst mod_mult_self2) (use f in simp)
  have sg: "2 ^ 63 \<le> n \<longleftrightarrow> s \<noteq> 0"
    using f k s by (auto simp: n_def)
  have "(f + 2 ^ 52) div 2 ^ (52 - k) = 2 ^ k + m"
  proof -
    have "(2::nat) ^ 52 = 2 ^ k * 2 ^ (52 - k)" using k by (simp flip: power_add)
    then have "f + 2 ^ 52 = (2 ^ k + m) * 2 ^ (52 - k)" by (simp add: f_def algebra_simps)
    then show ?thesis by simp
  qed
  moreover have "(2::nat) ^ 52 = 2 ^ k" if "k = 52" using that by simp
  ultimately have mag: "(if 1075 \<le> k + 1023 then (f + 2 ^ 52) * 2 ^ (k + 1023 - 1075)
      else (f + 2 ^ 52) div 2 ^ (1075 - (k + 1023))) = 2 ^ k + m"
    using k by (cases "k = 52") (auto simp: f_def)
  have ne: "(k + 1023 = 0) = False" "(k + 1023 = 2047) = False" using k by simp_all
  have "f64_trunc (word_of_nat n) = Some (if s \<noteq> 0 then - int (2 ^ k + m) else int (2 ^ k + m))"
    unfolding f64_trunc_def Let_def un e fr sg ne if_False mag ..
  then show ?thesis unfolding n_def f_def by (cases "s = 0") (simp_all only: if_True if_False simp_thms)
qed

lemma f64_mag_bits_0 [simp]: "f64_mag_bits 0 = 0"
  by (simp add: f64_mag_bits_def)

lemma f64_trunc_zero [simp]: "f64_trunc 0 = Some 0"
  by (simp add: f64_trunc_def)

lemma f64_trunc_of_int:
  assumes "\<bar>i\<bar> < 2 ^ 53"
  shows "f64_trunc (f64_of_int i) = Some i"
proof (cases "i = 0")
  case True
  then show ?thesis by (simp add: f64_of_int_def)
next
  case False
  define n where "n = nat \<bar>i\<bar>"
  have "0 < n" "n < 2 ^ 53" using False assms by (auto simp: n_def nat_less_iff)
  then obtain k m where km: "k \<le> 52" "n = 2 ^ k + m" "m < 2 ^ k"
    and b: "f64_mag_bits n = (k + 1023) * 2 ^ 52 + m * 2 ^ (52 - k)"
    using f64_mag_bits_small by blast
  show ?thesis
  proof (cases "i < 0")
    case True
    then have "f64_of_int i = word_of_nat (2 ^ 63 + f64_mag_bits n)" and "int n = - i"
      by (simp_all add: f64_of_int_def n_def)
    then show ?thesis using f64_trunc_normal [OF km(1,3), of "2 ^ 63"] km(2) b by simp
  next
    case False
    then have "f64_of_int i = word_of_nat (0 + f64_mag_bits n)" and "int n = i"
      by (simp_all add: f64_of_int_def n_def)
    then show ?thesis using f64_trunc_normal [OF km(1,3), of 0] km(2) b by simp
  qed
qed

end
