(* ===== verification/Go_Value.thy ===== *)
theory Go_Value
  imports Go_Float "HOL-Library.Finite_Map"
begin

text \<open>
  The dynamic values (\<open>interface{}\<close>) that payloads are made of, the schema type trees of
  \<open>protocol/types.go\<close>, the permissive coercions of \<open>protocol/coerce.go\<close>, the
  frame types of \<open>protocol/constants.go\<close>, and the record of everything the program calls
  that is not in the repository.
\<close>

subsection \<open>protocol/constants.go\<close>

definition FrameConnect :: byte where "FrameConnect = 0x01"
definition FrameEvent :: byte where "FrameEvent = 0x02"
definition FrameAck :: byte where "FrameAck = 0x03"
definition FramePing :: byte where "FramePing = 0x04"
definition FramePong :: byte where "FramePong = 0x05"
definition FrameJoin :: byte where "FrameJoin = 0x06"
definition FrameLeave :: byte where "FrameLeave = 0x07"

lemmas frame_types = FrameConnect_def FrameEvent_def FrameAck_def FramePing_def FramePong_def
  FrameJoin_def FrameLeave_def

subsection \<open>protocol/types.go\<close>

definition Uint8_t :: gostring where "Uint8_t = ''uint8''"
definition Uint16_t :: gostring where "Uint16_t = ''uint16''"
definition Uint32_t :: gostring where "Uint32_t = ''uint32''"
definition Int32_t :: gostring where "Int32_t = ''int32''"
definition Float64_t :: gostring where "Float64_t = ''float64''"
definition Boolean_t :: gostring where "Boolean_t = ''boolean''"
definition String_t :: gostring where "String_t = ''string''"
definition Bytes_t :: gostring where "Bytes_t = ''bytes''"
definition ObjectAny_t :: gostring where "ObjectAny_t = ''object''"
definition ArrayAny_t :: gostring where "ArrayAny_t = ''array''"
definition Any_t :: gostring where "Any_t = ''any''"

lemmas type_tags = Uint8_t_def Uint16_t_def Uint32_t_def Int32_t_def Float64_t_def Boolean_t_def
  String_t_def Bytes_t_def ObjectAny_t_def ArrayAny_t_def Any_t_def

text \<open>The tags are pairwise different, in both directions, as simplification rules.\<close>

lemma tags_distinct:
  "distinct [Uint8_t, Uint16_t, Uint32_t, Int32_t, Float64_t, Boolean_t, String_t, Bytes_t,
     ObjectAny_t, ArrayAny_t, Any_t]"
  "distinct (rev [Uint8_t, Uint16_t, Uint32_t, Int32_t, Float64_t, Boolean_t, String_t, Bytes_t,
     ObjectAny_t, ArrayAny_t, Any_t])"
  by (simp_all add: type_tags)

lemmas tag_neq [simp] = tags_distinct [simplified]

text \<open>
  A \<open>SchemaDef\<close> is an \<open>interface{}\<close>: a tag string, an \<open>*ArrayDef\<close>, an
  \<open>*ObjectDef\<close>, or a value of any other type (\<open>SInvalid\<close>), which every switch over it
  sends to its default branch. The trees that \<open>Array\<close>, \<open>Object\<close> and \<open>F\<close>
  build are finite and have no nil pointers.
\<close>

datatype schema_def =
    STag gostring
  | ArrayDef schema_def
  | ObjectDef "field_def list"
  | SInvalid
and field_def = FieldDef gostring schema_def

primrec Key :: "field_def \<Rightarrow> gostring" where
  "Key (FieldDef k t) = k"

primrec Type :: "field_def \<Rightarrow> schema_def" where
  "Type (FieldDef k t) = t"

lemma field_case: "case_field_def g = (\<lambda>f. g (Key f) (Type f))"
  by (rule ext) (simp split: field_def.split)

definition F :: "gostring \<Rightarrow> schema_def \<Rightarrow> field_def" where
  "F key typ = FieldDef key typ"

definition Object :: "field_def list \<Rightarrow> schema_def" where
  "Object fs = ObjectDef fs"

definition Array :: "schema_def \<Rightarrow> schema_def" where
  "Array element = ArrayDef element"

lemmas builders = F_def Object_def Array_def

subsection \<open>Dynamic values\<close>

text \<open>
  One constructor per dynamic type that some type switch of the repository tells apart; \<open>VOther\<close> stands
  for a value of another type that msgpack refuses to write, or writes so that it can be read back. Values
  it writes but cannot read into an \<open>interface{}\<close> (maps whose keys are not strings) are outside the model.
  Floats are their bit patterns.
\<close>

datatype goval =
    VNil
  | VInt "64 word" | VInt8 "8 word" | VInt16 "16 word" | VInt32 "32 word" | VInt64 "64 word"
  | VUint "64 word" | VUint8 "8 word" | VUint16 "16 word" | VUint32 "32 word" | VUint64 "64 word"
  | VFloat32 f32 | VFloat64 f64
  | VBool bool
  | VString gostring
  | VBytes "byte list"
  | VList "goval list"
  | VMap "(gostring, goval) fmap"
  | VWireDef schema_def
  | VOther nat

subsection \<open>What is not in the repository\<close>

text \<open>
  \<^item> \<open>mp_\<dots>\<close>: \<open>github.com/vmihailenco/msgpack/v5\<close> (whole values, the token
    encoder and decoder, and the code predicates of its package \<open>msgpcode\<close>);
  \<^item> \<open>fl_\<dots>\<close>: the DEFLATE compressor and decompressor of \<open>compress/flate\<close>, used
    here as a black box: opening a writer, writing, and the bytes in the buffer after closing;
  \<^item> \<open>oor_\<dots>\<close>: what a float-to-integer conversion gives when the value does not fit,
    which the Go specification leaves to the implementation;
  \<^item> \<open>net_Listen\<close> and \<open>http_Close\<close>: the error of listening on a port and of closing an
    \<open>http.Server\<close>, if any.
\<close>

record externals =
  mp_Marshal :: "goval \<Rightarrow> byte list res"
  mp_Unmarshal :: "byte list \<Rightarrow> goval res"
  mp_EncodeString :: "gostring \<Rightarrow> byte list res"
  mp_EncodeArrayLen :: "int \<Rightarrow> byte list res"
  mp_EncodeMapLen :: "int \<Rightarrow> byte list res"
  mp_PeekCode :: "byte list \<Rightarrow> byte res"
  mp_DecodeString :: "byte list \<Rightarrow> (gostring \<times> byte list) res"
  mp_DecodeArrayLen :: "byte list \<Rightarrow> (int \<times> byte list) res"
  mp_DecodeMapLen :: "byte list \<Rightarrow> (int \<times> byte list) res"
  mp_IsString :: "byte \<Rightarrow> bool"
  mp_IsBin :: "byte \<Rightarrow> bool"
  mp_IsFixedArray :: "byte \<Rightarrow> bool"
  mp_IsFixedMap :: "byte \<Rightarrow> bool"
  mp_Array16 :: byte
  mp_Array32 :: byte
  mp_Map16 :: byte
  mp_Map32 :: byte
  fl_NewWriter :: "gerror option"
  fl_Write :: "byte list \<Rightarrow> gerror option"
  fl_Close :: "byte list \<Rightarrow> byte list res"
  fl_ReadAll :: "byte list \<Rightarrow> byte list res"
  oor_u64_f32 :: "f32 \<Rightarrow> 64 word"
  oor_u64_f64 :: "f64 \<Rightarrow> 64 word"
  oor_i64_f32 :: "f32 \<Rightarrow> 64 word"
  oor_i64_f64 :: "f64 \<Rightarrow> 64 word"
  net_Listen :: "int \<Rightarrow> gerror option"
  http_Close :: "gerror option"

subsection \<open>protocol/coerce.go\<close>

text \<open>
  A signed integer converts to \<open>uint64\<close> by sign extension, an unsigned one by zero
  extension.
\<close>

fun toUint64 :: "externals \<Rightarrow> goval \<Rightarrow> 64 word" where
  "toUint64 E VNil = 0"
| "toUint64 E (VInt t) = t"
| "toUint64 E (VInt8 t) = scast t"
| "toUint64 E (VInt16 t) = scast t"
| "toUint64 E (VInt32 t) = scast t"
| "toUint64 E (VInt64 t) = t"
| "toUint64 E (VUint t) = t"
| "toUint64 E (VUint8 t) = ucast t"
| "toUint64 E (VUint16 t) = ucast t"
| "toUint64 E (VUint32 t) = ucast t"
| "toUint64 E (VUint64 t) = t"
| "toUint64 E (VFloat32 t) = trunc_u64 f32_trunc (oor_u64_f32 E) t"
| "toUint64 E (VFloat64 t) = trunc_u64 f64_trunc (oor_u64_f64 E) t"
| "toUint64 E _ = 0"

fun toInt64 :: "externals \<Rightarrow> goval \<Rightarrow> 64 word" where
  "toInt64 E VNil = 0"
| "toInt64 E (VInt t) = t"
| "toInt64 E (VInt8 t) = scast t"
| "toInt64 E (VInt16 t) = scast t"
| "toInt64 E (VInt32 t) = scast t"
| "toInt64 E (VInt64 t) = t"
| "toInt64 E (VUint t) = t"
| "toInt64 E (VUint8 t) = ucast t"
| "toInt64 E (VUint16 t) = ucast t"
| "toInt64 E (VUint32 t) = ucast t"
| "toInt64 E (VUint64 t) = t"
| "toInt64 E (VFloat32 t) = trunc_i64 f32_trunc (oor_i64_f32 E) t"
| "toInt64 E (VFloat64 t) = trunc_i64 f64_trunc (oor_i64_f64 E) t"
| "toInt64 E _ = 0"

fun toFloat64 :: "goval \<Rightarrow> f64" where
  "toFloat64 VNil = 0"
| "toFloat64 (VFloat32 t) = f64_of_f32 t"
| "toFloat64 (VFloat64 t) = t"
| "toFloat64 (VInt t) = f64_of_int (sint t)"
| "toFloat64 (VInt8 t) = f64_of_int (sint t)"
| "toFloat64 (VInt16 t) = f64_of_int (sint t)"
| "toFloat64 (VInt32 t) = f64_of_int (sint t)"
| "toFloat64 (VInt64 t) = f64_of_int (sint t)"
| "toFloat64 (VUint t) = f64_of_int (uint t)"
| "toFloat64 (VUint8 t) = f64_of_int (uint t)"
| "toFloat64 (VUint16 t) = f64_of_int (uint t)"
| "toFloat64 (VUint32 t) = f64_of_int (uint t)"
| "toFloat64 (VUint64 t) = f64_of_int (uint t)"
| "toFloat64 _ = 0"

fun toBool :: "goval \<Rightarrow> bool" where
  "toBool (VBool b) = b"
| "toBool _ = False"

fun toStringVal :: "goval \<Rightarrow> gostring" where
  "toStringVal (VString s) = s"
| "toStringVal _ = ''''"

fun toBytesVal :: "goval \<Rightarrow> byte list" where
  "toBytesVal (VBytes t) = t"
| "toBytesVal VNil = []"
| "toBytesVal _ = []"

fun toSlice :: "goval \<Rightarrow> goval list" where
  "toSlice (VList s) = s"
| "toSlice _ = []"

text \<open>\<open>None\<close> is the nil map of a failed assertion.\<close>

fun toMap :: "goval \<Rightarrow> (gostring, goval) fmap option" where
  "toMap (VMap m) = Some m"
| "toMap _ = None"

text \<open>
  \<open>obj[key]\<close> as the encoder reads it: nil when there is no map or no such key.
\<close>

definition field_value :: "(gostring, goval) fmap option \<Rightarrow> gostring \<Rightarrow> goval" where
  "field_value obj key =
     (case obj of None \<Rightarrow> VNil
      | Some m \<Rightarrow> (case fmlookup m key of None \<Rightarrow> VNil | Some v \<Rightarrow> v))"

subsection \<open>What the coercions keep\<close>

text \<open>The integer a value of an integer type holds.\<close>

fun int_value :: "goval \<Rightarrow> int option" where
  "int_value (VInt t) = Some (sint t)"
| "int_value (VInt8 t) = Some (sint t)"
| "int_value (VInt16 t) = Some (sint t)"
| "int_value (VInt32 t) = Some (sint t)"
| "int_value (VInt64 t) = Some (sint t)"
| "int_value (VUint t) = Some (uint t)"
| "int_value (VUint8 t) = Some (uint t)"
| "int_value (VUint16 t) = Some (uint t)"
| "int_value (VUint32 t) = Some (uint t)"
| "int_value (VUint64 t) = Some (uint t)"
| "int_value _ = None"

lemma ucast_word_of_int:
  "LENGTH('b) \<le> LENGTH('a) \<Longrightarrow> (ucast (word_of_int i :: 'a::len word) :: 'b::len word) = word_of_int i"
  by (rule bit_word_eqI) (auto simp: bit_simps)

lemma toUint64_int: "int_value v = Some i \<Longrightarrow> toUint64 E v = word_of_int i"
  by (cases v) auto

lemma toInt64_int: "int_value v = Some i \<Longrightarrow> toInt64 E v = word_of_int i"
  by (cases v) auto

lemma toFloat64_int: "int_value v = Some i \<Longrightarrow> toFloat64 v = f64_of_int i"
  by (cases v) auto

end
