(* ===== verification/Schema_Codec.thy ===== *)
theory Schema_Codec
  imports Big_Endian Go_Value
begin

text \<open>
  \<open>protocol/schema.go\<close>: the positional binary codec. Encoding is two passes, as in the code:
  \<open>computeSize\<close> adds up the size and queues the bytes of the strings and msgpack values it
  produced, then \<open>encodeValue\<close> writes into one buffer of that size at a running offset, taking
  the queued bytes in order. \<open>decodeValue\<close> reads at a running offset from a slice whose
  bounds Go checks. Go's \<open>int\<close> offsets are \<open>nat\<close>: they count bytes of buffers that exist.
\<close>

subsection \<open>Schemas\<close>

record schema =
  sc_Name :: gostring
  sc_Definition :: schema_def

definition char_in :: "char \<Rightarrow> char \<Rightarrow> char \<Rightarrow> bool" where
  "char_in lo hi c \<longleftrightarrow> (of_char lo :: nat) \<le> of_char c \<and> (of_char c :: nat) \<le> of_char hi"

definition word_char :: "char \<Rightarrow> bool" where
  "word_char c \<longleftrightarrow> char_in (CHR ''a'') (CHR ''z'') c \<or> char_in (CHR ''A'') (CHR ''Z'') c
     \<or> char_in (CHR ''0'') (CHR ''9'') c \<or> c = CHR ''_''"

text \<open>\<open>regexp.MustCompile(`^[a-zA-Z0-9_]+$`)\<close>\<close>

definition schemaNameRe :: "gostring \<Rightarrow> bool" where
  "schemaNameRe s \<longleftrightarrow> s \<noteq> [] \<and> list_all word_char s"

definition NewSchema :: "gostring \<Rightarrow> schema_def \<Rightarrow> schema res" where
  "NewSchema name def =
     (if name = [] then Ok \<lparr>sc_Name = ''unknown'', sc_Definition = def\<rparr>
      else if \<not> schemaNameRe name then Err (InvalidSchemaName name)
      else Ok \<lparr>sc_Name = name, sc_Definition = def\<rparr>)"

definition MustNewSchema :: "gostring \<Rightarrow> schema_def \<Rightarrow> schema res" where
  "MustNewSchema name def =
     (case NewSchema name def of Ok s \<Rightarrow> Ok s | Err e \<Rightarrow> Panic (GoPanic e) | Panic p \<Rightarrow> Panic p)"

subsection \<open>First pass\<close>

type_synonym byte_queue = "byte list list"

fun computeSize :: "externals \<Rightarrow> schema_def \<Rightarrow> goval \<Rightarrow> byte_queue \<Rightarrow> (nat \<times> byte_queue) res" where
  "computeSize E (STag t) val queue =
     (if t = Uint8_t \<or> t = Boolean_t then Ok (1, queue)
      else if t = Uint16_t then Ok (2, queue)
      else if t = Uint32_t \<or> t = Int32_t then Ok (4, queue)
      else if t = Float64_t then Ok (8, queue)
      else if t = String_t then
        (let b = str_bytes (toStringVal val) in Ok (4 + length b, queue @ [b]))
      else if t = Bytes_t then
        (let b = toBytesVal val in Ok (4 + length b, queue))
      else if t = ObjectAny_t \<or> t = ArrayAny_t \<or> t = Any_t then
        andThen (mp_Marshal E val) (\<lambda>packed. Ok (4 + length packed, queue @ [packed]))
      else Err (UnsupportedType t))"
| "computeSize E (ArrayDef elem) val queue =
     foldm (\<lambda>item (size, q). andThen (computeSize E elem item q) (\<lambda>(s, q'). Ok (size + s, q')))
       (toSlice val) (4, queue)"
| "computeSize E (ObjectDef fs) val queue =
     (let obj = toMap val in
      foldm (\<lambda>f (size, q). case f of FieldDef k t \<Rightarrow>
          andThen (computeSize E t (field_value obj k) q) (\<lambda>(s, q'). Ok (size + s, q')))
        fs (0, queue))"
| "computeSize E SInvalid val queue = Err InvalidDefinition"

subsection \<open>Second pass\<close>

text \<open>The state of the second pass: the buffer, \<open>off.offset\<close> and \<open>qi.idx\<close>.\<close>

type_synonym enc_state = "byte list \<times> nat \<times> nat"

fun encodeValue :: "externals \<Rightarrow> schema_def \<Rightarrow> goval \<Rightarrow> byte_queue \<Rightarrow> enc_state \<Rightarrow> enc_state res" where
  "encodeValue E (STag t) val queue (buf, off, qi) =
     (if t = Uint8_t then
        andThen (buf_set buf off (ucast (toUint64 E val))) (\<lambda>buf. Ok (buf, off + 1, qi))
      else if t = Boolean_t then
        andThen (buf_set buf off (if toBool val then 1 else 0)) (\<lambda>buf. Ok (buf, off + 1, qi))
      else if t = Uint16_t then
        andThen (put_be buf off (be16 (ucast (toUint64 E val)))) (\<lambda>buf. Ok (buf, off + 2, qi))
      else if t = Uint32_t then
        andThen (put_be buf off (be32 (ucast (toUint64 E val)))) (\<lambda>buf. Ok (buf, off + 4, qi))
      else if t = Int32_t then
        andThen (put_be buf off (be32 (ucast (toInt64 E val)))) (\<lambda>buf. Ok (buf, off + 4, qi))
      else if t = Float64_t then
        andThen (put_be buf off (be64 (toFloat64 val))) (\<lambda>buf. Ok (buf, off + 8, qi))
      else if t = String_t \<or> t = ObjectAny_t \<or> t = ArrayAny_t \<or> t = Any_t then
        (if qi < length queue then
           (let enc = queue ! qi in
            andThen (put_be buf off (be32 (word_of_nat (length enc)))) (\<lambda>buf.
            andThen (buf_copy buf (off + 4) enc) (\<lambda>buf.
            Ok (buf, off + 4 + length enc, qi + 1))))
         else Panic IndexOutOfRange)
      else if t = Bytes_t then
        (let b = toBytesVal val in
         andThen (put_be buf off (be32 (word_of_nat (length b)))) (\<lambda>buf.
         andThen (buf_copy buf (off + 4) b) (\<lambda>buf.
         Ok (buf, off + 4 + length b, qi))))
      else Ok (buf, off, qi))"
| "encodeValue E (ArrayDef elem) val queue (buf, off, qi) =
     (let arr = toSlice val in
      andThen (put_be buf off (be32 (word_of_nat (length arr)))) (\<lambda>buf.
      foldm (\<lambda>item st. encodeValue E elem item queue st) arr (buf, off + 4, qi)))"
| "encodeValue E (ObjectDef fs) val queue (buf, off, qi) =
     (let obj = toMap val in
      foldm (\<lambda>f st. case f of FieldDef k t \<Rightarrow> encodeValue E t (field_value obj k) queue st)
        fs (buf, off, qi))"
| "encodeValue E SInvalid val queue (buf, off, qi) = Ok (buf, off, qi)"

text \<open>\<open>func (s *Schema) EncodePayload\<close>\<close>

definition schema_EncodePayload :: "externals \<Rightarrow> schema \<Rightarrow> goval \<Rightarrow> byte list res" where
  "schema_EncodePayload E s payload =
     andThen (computeSize E (sc_Definition s) payload []) (\<lambda>(size, queue).
     andThen (encodeValue E (sc_Definition s) payload queue (replicate size 0, 0, 0))
       (\<lambda>(buf, off, qi). Ok buf))"

subsection \<open>Decoding\<close>

definition read_lp :: "slice \<Rightarrow> nat \<Rightarrow> (byte list \<times> nat) res" where
  "read_lp buf off =
     andThen (get_u32 buf off) (\<lambda>w.
     let n = unat w; off = off + 4 in
     andThen (sl_range buf off (off + n)) (\<lambda>sub. Ok (sl_data sub, off + n)))"

fun decodeValue :: "externals \<Rightarrow> schema_def \<Rightarrow> slice \<Rightarrow> nat \<Rightarrow> (goval \<times> nat) res" where
  "decodeValue E (STag t) buf off =
     (if t = Uint8_t then andThen (sl_index buf off) (\<lambda>v. Ok (VUint8 v, off + 1))
      else if t = Boolean_t then andThen (sl_index buf off) (\<lambda>v. Ok (VBool (v \<noteq> 0), off + 1))
      else if t = Uint16_t then andThen (get_u16 buf off) (\<lambda>v. Ok (VUint16 v, off + 2))
      else if t = Uint32_t then andThen (get_u32 buf off) (\<lambda>v. Ok (VUint32 v, off + 4))
      else if t = Int32_t then andThen (get_u32 buf off) (\<lambda>v. Ok (VInt32 v, off + 4))
      else if t = Float64_t then andThen (get_u64 buf off) (\<lambda>v. Ok (VFloat64 v, off + 8))
      else if t = String_t then
        andThen (read_lp buf off) (\<lambda>(b, off). Ok (VString (bytes_str b), off))
      else if t = Bytes_t then
        andThen (read_lp buf off) (\<lambda>(b, off). Ok (VBytes b, off))
      else if t = ObjectAny_t \<or> t = ArrayAny_t \<or> t = Any_t then
        andThen (read_lp buf off) (\<lambda>(sub, off).
        andThen (mp_Unmarshal E sub) (\<lambda>v. Ok (v, off)))
      else Err (UnsupportedType t))"
| "decodeValue E (ArrayDef elem) buf off =
     andThen (get_u32 buf off) (\<lambda>n.
     andThen (replm (unat n)
         (\<lambda>(arr, off). andThen (decodeValue E elem buf off) (\<lambda>(v, off). Ok (arr @ [v], off)))
         ([], off + 4))
       (\<lambda>(arr, off). Ok (VList arr, off)))"
| "decodeValue E (ObjectDef fs) buf off =
     andThen (foldm (\<lambda>f (obj, off). case f of FieldDef k t \<Rightarrow>
         andThen (decodeValue E t buf off) (\<lambda>(v, off). Ok (fmupd k v obj, off))) fs (fmempty, off))
       (\<lambda>(obj, off). Ok (VMap obj, off))"
| "decodeValue E SInvalid buf off = Err InvalidDefinition"

text \<open>\<open>func (s *Schema) DecodePayload\<close>\<close>

definition schema_DecodePayload :: "externals \<Rightarrow> schema \<Rightarrow> slice \<Rightarrow> goval res" where
  "schema_DecodePayload E s buf =
     andThen (decodeValue E (sc_Definition s) buf 0) (\<lambda>(v, off). Ok v)"

end
