(* ===== verification/Schema_Correct.thy ===== *)
theory Schema_Correct
  imports Schema_Codec
begin

text \<open>
  What the schema codec promises. \<open>enc_spec\<close> is the layout the documentation of
  \<open>Schema\<close> describes, in append style: no sizes, no offsets, no queue. The two passes of the
  code are proved to compute exactly it. \<open>coerced\<close> is the value a decoder gets back, and
  \<open>typed\<close> says when that is the value that was sent.
\<close>

subsection \<open>The layout\<close>

definition length_prefixed :: "byte list \<Rightarrow> byte list" where
  "length_prefixed b = be32 (word_of_nat (length b)) @ b"

definition append_each :: "('x \<Rightarrow> byte list res) \<Rightarrow> 'x list \<Rightarrow> byte list \<Rightarrow> byte list res" where
  "append_each g = foldm (\<lambda>x acc. andThen (g x) (\<lambda>b. Ok (acc @ b)))"

lemma append_each_cong [fundef_cong]:
  "xs = ys \<Longrightarrow> a = b \<Longrightarrow> (\<And>x. x \<in> set ys \<Longrightarrow> g x = h x) \<Longrightarrow> append_each g xs a = append_each h ys b"
  unfolding append_each_def by (rule foldm_cong) auto

fun enc_spec :: "externals \<Rightarrow> schema_def \<Rightarrow> goval \<Rightarrow> byte list res" where
  "enc_spec E (STag t) v =
     (if t = Uint8_t then Ok [ucast (toUint64 E v)]
      else if t = Boolean_t then Ok [if toBool v then 1 else 0]
      else if t = Uint16_t then Ok (be16 (ucast (toUint64 E v)))
      else if t = Uint32_t then Ok (be32 (ucast (toUint64 E v)))
      else if t = Int32_t then Ok (be32 (ucast (toInt64 E v)))
      else if t = Float64_t then Ok (be64 (toFloat64 v))
      else if t = String_t then Ok (length_prefixed (str_bytes (toStringVal v)))
      else if t = Bytes_t then Ok (length_prefixed (toBytesVal v))
      else if t = ObjectAny_t \<or> t = ArrayAny_t \<or> t = Any_t then
        andThen (mp_Marshal E v) (\<lambda>p. Ok (length_prefixed p))
      else Err (UnsupportedType t))"
| "enc_spec E (ArrayDef elem) v =
     append_each (enc_spec E elem) (toSlice v) (be32 (word_of_nat (length (toSlice v))))"
| "enc_spec E (ObjectDef fs) v =
     append_each (\<lambda>f. case f of FieldDef k t \<Rightarrow> enc_spec E t (field_value (toMap v) k)) fs []"
| "enc_spec E SInvalid v = Err InvalidDefinition"

lemma length_length_prefixed [simp, go_buf]: "length (length_prefixed b) = 4 + length b"
  by (simp add: length_prefixed_def)

lemma append_each_simps [simp]:
  "append_each g [] acc = Ok acc"
  "append_each g (x # xs) acc = andThen (g x) (\<lambda>b. append_each g xs (acc @ b))"
  by (simp_all add: append_each_def andThen_assoc)

text \<open>The accumulator is a prefix.\<close>

lemma append_each_acc: "append_each g xs acc = andThen (append_each g xs []) (\<lambda>b. Ok (acc @ b))"
proof (induction xs arbitrary: acc)
  case (Cons x xs)
  show ?case
  proof (cases "g x")
    case (Ok b)
    then show ?thesis using Cons.IH [of "acc @ b"] Cons.IH [of b] by (simp add: andThen_assoc)
  qed simp_all
qed simp

subsection \<open>The two passes compute the layout\<close>

text \<open>
  One value's first pass \<open>sz\<close> and second pass \<open>wr\<close> agree with its layout \<open>sp\<close>: the
  same error, or the layout's length and some queue entries that the second pass, wherever it finds
  them in the queue and whatever the buffer holds, turns into the layout's bytes.
\<close>

definition passes_agree ::
  "(byte_queue \<Rightarrow> (nat \<times> byte_queue) res) \<Rightarrow> (byte_queue \<Rightarrow> enc_state \<Rightarrow> enc_state res)
     \<Rightarrow> byte list res \<Rightarrow> bool" where
  "passes_agree sz wr sp \<longleftrightarrow>
     (case sp of
        Ok bs \<Rightarrow> \<exists>cs. (\<forall>q. sz q = Ok (length bs, q @ cs)) \<and>
          (\<forall>pre rest buf off. off + length bs \<le> length buf \<longrightarrow>
             wr (pre @ cs @ rest) (buf, off, length pre)
               = Ok (overwrite buf off bs, off + length bs, length pre + length cs))
      | Err e \<Rightarrow> \<forall>q. sz q = Err e
      | Panic p \<Rightarrow> \<forall>q. sz q = Panic p)"

lemma passes_agreeI:
  assumes "\<And>q. sz q = Ok (length bs, q @ cs)"
    and "\<And>pre rest buf off. off + length bs \<le> length buf \<Longrightarrow>
      wr (pre @ cs @ rest) (buf, off, length pre)
        = Ok (overwrite buf off bs, off + length bs, length pre + length cs)"
  shows "passes_agree sz wr (Ok bs)"
  using assms by (auto simp: passes_agree_def)

lemma passes_agree_OkE:
  assumes "passes_agree sz wr (Ok bs)"
  obtains cs where "\<And>q. sz q = Ok (length bs, q @ cs)"
    and "\<And>pre rest buf off. off + length bs \<le> length buf \<Longrightarrow>
      wr (pre @ cs @ rest) (buf, off, length pre)
        = Ok (overwrite buf off bs, off + length bs, length pre + length cs)"
  using assms by (auto simp: passes_agree_def)

text \<open>Loops over items keep the agreement, from any size and offset reached before.\<close>

lemma passes_agree_loop:
  assumes "\<forall>x \<in> set xs. passes_agree (sz x) (\<lambda>q. wr x q) (sp x)"
  shows "(case append_each sp xs [] of
      Ok bs \<Rightarrow> \<exists>cs. (\<forall>n q. foldm (\<lambda>x (size, q). andThen (sz x q) (\<lambda>(s, q'). Ok (size + s, q'))) xs (n, q)
            = Ok (n + length bs, q @ cs)) \<and>
          (\<forall>pre rest buf off. off + length bs \<le> length buf \<longrightarrow>
             foldm (\<lambda>x st. wr x (pre @ cs @ rest) st) xs (buf, off, length pre)
               = Ok (overwrite buf off bs, off + length bs, length pre + length cs))
    | Err e \<Rightarrow> \<forall>n q. foldm (\<lambda>x (size, q). andThen (sz x q) (\<lambda>(s, q'). Ok (size + s, q'))) xs (n, q) = Err e
    | Panic p \<Rightarrow> \<forall>n q. foldm (\<lambda>x (size, q). andThen (sz x q) (\<lambda>(s, q'). Ok (size + s, q'))) xs (n, q) = Panic p)"
  using assms
proof (induction xs)
  case Nil
  then show ?case by simp
next
  case (Cons x xs)
  have hd: "passes_agree (sz x) (wr x) (sp x)" using Cons.prems by simp
  show ?case
  proof (cases "sp x")
    case (Ok b)
    then obtain cs where cs: "\<And>q. sz x q = Ok (length b, q @ cs)"
      and wr: "\<And>pre rest buf off. off + length b \<le> length buf \<Longrightarrow>
        wr x (pre @ cs @ rest) (buf, off, length pre)
          = Ok (overwrite buf off b, off + length b, length pre + length cs)"
      using hd by (metis passes_agree_OkE)
    show ?thesis
    proof (cases "append_each sp xs []")
      case ok: (Ok bs)
      with Cons obtain ds where ds: "\<And>n q. foldm (\<lambda>x (size, q). andThen (sz x q)
            (\<lambda>(s, q'). Ok (size + s, q'))) xs (n, q) = Ok (n + length bs, q @ ds)"
        and wrs: "\<And>pre rest buf off. off + length bs \<le> length buf \<Longrightarrow>
          foldm (\<lambda>x st. wr x (pre @ ds @ rest) st) xs (buf, off, length pre)
            = Ok (overwrite buf off bs, off + length bs, length pre + length ds)"
        by auto
      have "foldm (\<lambda>x st. wr x (pre @ (cs @ ds) @ rest) st) (x # xs) (buf, off, length pre)
          = Ok (overwrite buf off (b @ bs), off + length (b @ bs), length pre + length (cs @ ds))"
        if "off + length (b @ bs) \<le> length buf" for pre rest buf off
        using wr [of off buf pre "ds @ rest"]
          wrs [of "off + length b" "overwrite buf off b" "pre @ cs" rest] that
        by (simp add: add.assoc)
      then show ?thesis
        using Ok ok cs ds append_each_acc [of sp xs b]
        by (auto intro!: exI [of _ "cs @ ds"] simp: add.assoc)
    next
      case (Err e)
      with Cons Ok cs append_each_acc [of sp xs b] show ?thesis by simp
    next
      case (Panic p)
      with Cons Ok cs append_each_acc [of sp xs b] show ?thesis by simp
    qed
  next
    case (Err e)
    with hd show ?thesis by (simp add: passes_agree_def)
  next
    case (Panic p)
    with hd show ?thesis by (simp add: passes_agree_def)
  qed
qed

text \<open>The leaves of the type tree: a fixed-size field, a queued field, a byte field.\<close>

lemma passes_agree_put:
  assumes "\<And>q. sz q = Ok (n, q)" and "n = length bs"
    and "\<And>q buf off qi. wr q (buf, off, qi) = andThen (put_be buf off bs) (\<lambda>buf. Ok (buf, off + n, qi))"
  shows "passes_agree sz wr (Ok bs)"
  by (rule passes_agreeI [where cs = "[]"]) (simp_all add: assms)

lemma passes_agree_byte:
  assumes "\<And>q. sz q = Ok (1, q)"
    and "\<And>q buf off qi. wr q (buf, off, qi) = andThen (buf_set buf off x) (\<lambda>buf. Ok (buf, off + 1, qi))"
  shows "passes_agree sz wr (Ok [x])"
  by (rule passes_agreeI [where cs = "[]"]) (simp_all add: assms)

definition write_lp :: "byte list \<Rightarrow> byte list \<Rightarrow> nat \<Rightarrow> nat \<Rightarrow> enc_state res" where
  "write_lp b buf off qi =
     andThen (put_be buf off (be32 (word_of_nat (length b)))) (\<lambda>buf.
     andThen (buf_copy buf (off + 4) b) (\<lambda>buf. Ok (buf, off + 4 + length b, qi)))"

lemma write_lp_Ok:
  assumes "off + (4 + length b) \<le> length buf"
  shows "write_lp b buf off qi = Ok (overwrite buf off (length_prefixed b), off + (4 + length b), qi)"
proof -
  let ?h = "be32 (word_of_nat (length b))"
  have "overwrite (overwrite buf off ?h) (off + 4) b = overwrite buf off (?h @ b)"
    using assms overwrite_overwrite [of off ?h buf b] by simp
  then show ?thesis
    using assms by (simp add: write_lp_def length_prefixed_def)
qed

lemma passes_agree_queued:
  assumes "\<And>q. sz q = Ok (4 + length b, q @ [b])"
    and "\<And>q buf off qi. wr q (buf, off, qi) =
    (if qi < length q then write_lp (q ! qi) buf off (qi + 1) else Panic IndexOutOfRange)"
  shows "passes_agree sz wr (Ok (length_prefixed b))"
  by (rule passes_agreeI [where cs = "[b]"]) (simp_all add: assms write_lp_Ok)

lemma passes_agree_bytes:
  assumes "\<And>q. sz q = Ok (4 + length b, q)"
    and "\<And>q buf off qi. wr q (buf, off, qi) = write_lp b buf off qi"
  shows "passes_agree sz wr (Ok (length_prefixed b))"
  by (rule passes_agreeI [where cs = "[]"]) (simp_all add: assms write_lp_Ok)

lemma passes_agree_tag:
  "passes_agree (computeSize E (STag t) v) (\<lambda>q. encodeValue E (STag t) v q) (enc_spec E (STag t) v)"
proof -
  consider "t = Uint8_t" | "t = Boolean_t" | "t = Uint16_t" | "t = Uint32_t" | "t = Int32_t"
    | "t = Float64_t" | (str) "t = String_t" | (bytes) "t = Bytes_t"
    | (any) "t = ObjectAny_t \<or> t = ArrayAny_t \<or> t = Any_t"
    | (other) "t \<notin> {Uint8_t, Boolean_t, Uint16_t, Uint32_t, Int32_t, Float64_t, String_t, Bytes_t,
        ObjectAny_t, ArrayAny_t, Any_t}"
    by blast
  then show ?thesis
  proof cases
    case any
    then show ?thesis
    proof (cases "mp_Marshal E v")
      case (Ok p)
      have "passes_agree (computeSize E (STag t) v) (\<lambda>q. encodeValue E (STag t) v q)
          (Ok (length_prefixed p))"
        by (rule passes_agree_queued) (use any Ok in \<open>auto simp: write_lp_def Let_def\<close>)
      with any Ok show ?thesis by auto
    qed (auto simp: passes_agree_def)
  next
    case str
    then show ?thesis by (auto simp: write_lp_def Let_def intro!: passes_agree_queued)
  next
    case bytes
    then show ?thesis by (auto simp: write_lp_def Let_def intro!: passes_agree_bytes)
  next
    case other
    then show ?thesis by (simp add: passes_agree_def)
  qed (auto simp del: One_nat_def intro!: passes_agree_put passes_agree_byte)
qed

lemma two_passes:
  "passes_agree (computeSize E def v) (\<lambda>q. encodeValue E def v q) (enc_spec E def v)"
proof (induction E def v rule: enc_spec.induct)
  case (1 E t v)
  show ?case by (rule passes_agree_tag)
next
  case (2 E elem v)
  let ?n = "be32 (word_of_nat (length (toSlice v)))"
  have "\<forall>x \<in> set (toSlice v). passes_agree (computeSize E elem x) (\<lambda>q. encodeValue E elem x q) (enc_spec E elem x)"
    using 2 by blast
  note loop = passes_agree_loop [OF this]
  show ?case
  proof (cases "append_each (enc_spec E elem) (toSlice v) []")
    case (Ok bs)
    with loop obtain cs
      where cs: "\<And>n q. foldm (\<lambda>x (size, q). andThen (computeSize E elem x q)
          (\<lambda>(s, q'). Ok (size + s, q'))) (toSlice v) (n, q) = Ok (n + length bs, q @ cs)"
        and wr: "\<And>pre rest buf off. off + length bs \<le> length buf \<Longrightarrow>
          foldm (\<lambda>x st. encodeValue E elem x (pre @ cs @ rest) st) (toSlice v) (buf, off, length pre)
            = Ok (overwrite buf off bs, off + length bs, length pre + length cs)"
      by auto
    have "passes_agree (computeSize E (ArrayDef elem) v) (\<lambda>q. encodeValue E (ArrayDef elem) v q)
        (Ok (?n @ bs))"
    proof (rule passes_agreeI [where cs = cs])
      show "computeSize E (ArrayDef elem) v q = Ok (length (?n @ bs), q @ cs)" for q
        using cs by simp
      show "encodeValue E (ArrayDef elem) v (pre @ cs @ rest) (buf, off, length pre)
          = Ok (overwrite buf off (?n @ bs), off + length (?n @ bs), length pre + length cs)"
        if "off + length (?n @ bs) \<le> length buf" for pre rest buf off
        using that wr [of "off + 4" "overwrite buf off ?n" pre rest]
          overwrite_overwrite [of off ?n buf bs] by (simp add: Let_def add.assoc)
    qed
    with Ok append_each_acc [of "enc_spec E elem" "toSlice v" ?n] show ?thesis
      by (simp del: computeSize.simps)
  next
    case (Err e)
    with loop append_each_acc [of "enc_spec E elem" "toSlice v" ?n] show ?thesis
      by (simp add: passes_agree_def)
  next
    case (Panic p)
    with loop append_each_acc [of "enc_spec E elem" "toSlice v" ?n] show ?thesis
      by (simp add: passes_agree_def)
  qed
next
  case (3 E fs v)
  let ?sz = "\<lambda>f. case f of FieldDef k t \<Rightarrow> computeSize E t (field_value (toMap v) k)"
  let ?wr = "\<lambda>f q. case f of FieldDef k t \<Rightarrow> encodeValue E t (field_value (toMap v) k) q"
  let ?sp = "\<lambda>f. case f of FieldDef k t \<Rightarrow> enc_spec E t (field_value (toMap v) k)"
  have "\<forall>f \<in> set fs. passes_agree (?sz f) (\<lambda>q. ?wr f q) (?sp f)"
    using 3 by (auto split: field_def.split)
  from passes_agree_loop [OF this] show ?case
    by (auto simp: passes_agree_def field_case split: res.splits)
next
  case (4 E v)
  show ?case by (simp add: passes_agree_def)
qed

text \<open>
  The encoder returns exactly the documented layout, with the layout's error, and never panics on
  its own account: every write it makes is inside the buffer it sized.
\<close>

lemma EncodePayload_enc_spec:
  "schema_EncodePayload E s v = enc_spec E (sc_Definition s) v"
proof (cases "enc_spec E (sc_Definition s) v")
  case (Ok bs)
  with two_passes [of E "sc_Definition s" v] obtain cs
    where cs: "\<And>q. computeSize E (sc_Definition s) v q = Ok (length bs, q @ cs)"
      and wr: "\<And>pre rest buf off. off + length bs \<le> length buf \<Longrightarrow>
        encodeValue E (sc_Definition s) v (pre @ cs @ rest) (buf, off, length pre)
          = Ok (overwrite buf off bs, off + length bs, length pre + length cs)"
    by (metis passes_agree_OkE)
  show ?thesis
    using Ok cs wr [of 0 "replicate (length bs) 0" "[]" "[]"]
    by (simp add: schema_EncodePayload_def overwrite_all)
next
  case (Err e)
  with two_passes [of E "sc_Definition s" v] show ?thesis
    by (simp add: schema_EncodePayload_def passes_agree_def)
next
  case (Panic p)
  with two_passes [of E "sc_Definition s" v] show ?thesis
    by (simp add: schema_EncodePayload_def passes_agree_def)
qed

end
