(* ===== verification/Schema_Roundtrip.thy ===== *)
theory Schema_Roundtrip
  imports Schema_Correct
begin

text \<open>
  Decoding what was encoded. \<open>coerced\<close> is what the wire carries of a value under a schema:
  integers wrapped to the field's width, missing fields and wrong types replaced by zero values,
  unknown keys dropped. \<open>lens_ok\<close> bounds every length by the 32-bit prefix that carries it.
\<close>

subsection \<open>What the wire carries\<close>

fun coerced :: "externals \<Rightarrow> schema_def \<Rightarrow> goval \<Rightarrow> goval" where
  "coerced E (STag t) v =
     (if t = Uint8_t then VUint8 (ucast (toUint64 E v))
      else if t = Boolean_t then VBool (toBool v)
      else if t = Uint16_t then VUint16 (ucast (toUint64 E v))
      else if t = Uint32_t then VUint32 (ucast (toUint64 E v))
      else if t = Int32_t then VInt32 (ucast (toInt64 E v))
      else if t = Float64_t then VFloat64 (toFloat64 v)
      else if t = String_t then VString (toStringVal v)
      else if t = Bytes_t then VBytes (toBytesVal v)
      else (case mp_Marshal E v of
              Ok p \<Rightarrow> (case mp_Unmarshal E p of Ok w \<Rightarrow> w | _ \<Rightarrow> VNil)
            | _ \<Rightarrow> VNil))"
| "coerced E (ArrayDef elem) v = VList (map (coerced E elem) (toSlice v))"
| "coerced E (ObjectDef fs) v =
     VMap (foldl (\<lambda>m f. case f of FieldDef k t \<Rightarrow>
       fmupd k (coerced E t (field_value (toMap v) k)) m) fmempty fs)"
| "coerced E SInvalid v = VNil"

fun lens_ok :: "externals \<Rightarrow> schema_def \<Rightarrow> goval \<Rightarrow> bool" where
  "lens_ok E (STag t) v =
     (if t = String_t then length (toStringVal v) < 2 ^ 32
      else if t = Bytes_t then length (toBytesVal v) < 2 ^ 32
      else if t = ObjectAny_t \<or> t = ArrayAny_t \<or> t = Any_t then
        (case mp_Marshal E v of Ok p \<Rightarrow> length p < 2 ^ 32 | _ \<Rightarrow> True)
      else True)"
| "lens_ok E (ArrayDef elem) v \<longleftrightarrow>
     length (toSlice v) < 2 ^ 32 \<and> list_all (lens_ok E elem) (toSlice v)"
| "lens_ok E (ObjectDef fs) v \<longleftrightarrow>
     list_all (\<lambda>f. case f of FieldDef k t \<Rightarrow> lens_ok E t (field_value (toMap v) k)) fs"
| "lens_ok E SInvalid v \<longleftrightarrow> True"

text \<open>
  Documented behaviour of the msgpack package the codec relies on: what \<open>Marshal\<close> wrote,
  \<open>Unmarshal\<close> into an \<open>interface{}\<close> reads, for the values the type \<open>goval\<close> stands for. (It may
  read it as a value of another integer type, so it is not said to give the same value back.)
\<close>

definition msgpack_decodes :: "externals \<Rightarrow> bool" where
  "msgpack_decodes E \<longleftrightarrow> (\<forall>v p. mp_Marshal E v = Ok p \<longrightarrow> (\<exists>w. mp_Unmarshal E p = Ok w))"

subsection \<open>Reading at an offset\<close>

text \<open>The bytes of a slice from an offset inside it on.\<close>

definition at_off :: "slice \<Rightarrow> nat \<Rightarrow> byte list \<Rightarrow> bool" where
  "at_off b off bs \<longleftrightarrow> off \<le> length (sl_data b) \<and> drop off (sl_data b) = bs"

lemma at_off_append: "at_off b off (xs @ ys) \<Longrightarrow> at_off b (off + length xs) ys"
proof -
  assume a: "at_off b off (xs @ ys)"
  then have "length (drop off (sl_data b)) = length xs + length ys" by (simp add: at_off_def)
  moreover have "drop (length xs) (drop off (sl_data b)) = ys" using a by (simp add: at_off_def)
  ultimately show ?thesis using a by (auto simp: at_off_def add.commute)
qed

lemma read_lp_Ok:
  assumes "at_off b off (length_prefixed bs @ rest)" and "length bs < 2 ^ 32"
  shows "read_lp b off = Ok (bs, off + length (length_prefixed bs))"
proof -
  let ?w = "word_of_nat (length bs) :: 32 word"
  have at: "at_off b off (be32 ?w @ bs @ rest)" using assms(1) by (simp add: length_prefixed_def)
  have n: "unat ?w = length bs" using assms(2) by (intro unat_word_small) simp
  have at4: "at_off b (off + 4) (bs @ rest)" using at_off_append [OF at] by simp
  then obtain sp where "sl_range b (off + 4) (off + 4 + length bs) = Ok \<lparr>sl_data = bs, sl_spare = sp\<rparr>"
    using sl_range_data [of "off + 4" b bs rest "off + 4 + length bs"] by (auto simp: at_off_def)
  then show ?thesis
    using at n by (simp add: read_lp_def at_off_def Let_def length_prefixed_def)
qed

subsection \<open>Round trip\<close>

definition decodes_to :: "externals \<Rightarrow> schema_def \<Rightarrow> goval \<Rightarrow> byte list \<Rightarrow> bool" where
  "decodes_to E def v bs \<longleftrightarrow>
     (\<forall>b off rest. at_off b off (bs @ rest) \<longrightarrow>
        decodeValue E def b off = Ok (coerced E def v, off + length bs))"

lemma decodes_toD:
  "decodes_to E def v bs \<Longrightarrow> at_off b off (bs @ rest) \<Longrightarrow>
    decodeValue E def b off = Ok (coerced E def v, off + length bs)"
  unfolding decodes_to_def by blast

lemma decodes_tag:
  assumes "enc_spec E (STag t) v = Ok bs" and "lens_ok E (STag t) v" and "msgpack_decodes E"
  shows "decodes_to E (STag t) v bs"
  unfolding decodes_to_def
proof (intro allI impI)
  fix b off rest
  assume at: "at_off b off (bs @ rest)"
  consider (byte) "t = Uint8_t \<or> t = Boolean_t"
    | (num) "t = Uint16_t \<or> t = Uint32_t \<or> t = Int32_t \<or> t = Float64_t"
    | (str) "t = String_t" | (bytes) "t = Bytes_t"
    | (any) "t = ObjectAny_t \<or> t = ArrayAny_t \<or> t = Any_t"
    | (other) "t \<notin> {Uint8_t, Boolean_t, Uint16_t, Uint32_t, Int32_t, Float64_t, String_t, Bytes_t,
        ObjectAny_t, ArrayAny_t, Any_t}"
    by blast
  then show "decodeValue E (STag t) b off = Ok (coerced E (STag t) v, off + length bs)"
  proof cases
    case byte
    with assms at show ?thesis by (auto simp: at_off_def)
  next
    case num
    with assms at show ?thesis by (auto simp: at_off_def)
  next
    case str
    with assms have "bs = length_prefixed (str_bytes (toStringVal v))" by simp
    with str assms at read_lp_Ok [of b off "str_bytes (toStringVal v)" rest] show ?thesis by simp
  next
    case bytes
    with assms have "bs = length_prefixed (toBytesVal v)" by simp
    with bytes assms at read_lp_Ok [of b off "toBytesVal v" rest] show ?thesis by simp
  next
    case any
    with assms(1) obtain p where p: "mp_Marshal E v = Ok p" "bs = length_prefixed p" by auto
    moreover from p assms(3) obtain w where "mp_Unmarshal E p = Ok w"
      by (auto simp: msgpack_decodes_def)
    ultimately show ?thesis
      using any assms at read_lp_Ok [of b off p rest] by auto
  next
    case other
    with assms(1) show ?thesis by simp
  qed
qed

lemma append_each_OkE:
  assumes "append_each g xs acc = Ok bs"
  obtains ps where "list_all2 (\<lambda>x p. g x = Ok p) xs ps" and "bs = acc @ concat ps"
  using assms
proof (induction xs arbitrary: acc thesis)
  case Nil
  then show ?case by simp
next
  case (Cons x xs)
  from Cons.prems(2) obtain b where b: "g x = Ok b" "append_each g xs (acc @ b) = Ok bs" by auto
  obtain ps where "list_all2 (\<lambda>x p. g x = Ok p) xs ps" "bs = (acc @ b) @ concat ps"
    using Cons.IH [OF _ b(2)] by blast
  with b(1) Cons.prems(1) [of "b # ps"] show ?case by simp
qed

text \<open>The element loop of an array.\<close>

lemma decode_elements:
  assumes "list_all2 (\<lambda>x p. decodes_to E elem x p) xs ps" and "at_off b off (concat ps @ rest)"
  shows "replm (length xs)
      (\<lambda>(arr, off). andThen (decodeValue E elem b off) (\<lambda>(v, off). Ok (arr @ [v], off))) (acc, off)
    = Ok (acc @ map (coerced E elem) xs, off + length (concat ps))"
  using assms
proof (induction xs ps arbitrary: acc off rule: list_all2_induct)
  case Nil
  then show ?case by simp
next
  case (Cons x xs p ps)
  have "decodeValue E elem b off = Ok (coerced E elem x, off + length p)"
    using Cons.prems by (intro decodes_toD [OF Cons.hyps(1)]) simp
  moreover have "at_off b (off + length p) (concat ps @ rest)"
    using Cons.prems at_off_append [of b off p] by simp
  ultimately show ?case
    using Cons.IH [of "off + length p" "acc @ [coerced E elem x]"] by (simp add: add.assoc)
qed

text \<open>The field loop of an object.\<close>

lemma decode_fields:
  assumes "list_all2 (\<lambda>f p. decodes_to E (Type f) (field_value obj (Key f)) p) fs ps"
    and "at_off b off (concat ps @ rest)"
  shows "foldm (\<lambda>f (m, off). andThen (decodeValue E (Type f) b off)
      (\<lambda>(v, off). Ok (fmupd (Key f) v m, off))) fs (m, off)
    = Ok (foldl (\<lambda>m f. fmupd (Key f) (coerced E (Type f) (field_value obj (Key f))) m) m fs,
          off + length (concat ps))"
  using assms
proof (induction fs ps arbitrary: m off rule: list_all2_induct)
  case Nil
  then show ?case by simp
next
  case (Cons f fs p ps)
  have "decodeValue E (Type f) b off = Ok (coerced E (Type f) (field_value obj (Key f)), off + length p)"
    using Cons.prems by (intro decodes_toD [OF Cons.hyps(1)]) simp
  moreover have "at_off b (off + length p) (concat ps @ rest)"
    using Cons.prems at_off_append [of b off p] by simp
  ultimately show ?case
    using Cons.IH [of "off + length p"] by (simp add: add.assoc)
qed

lemma decode_encoded:
  "enc_spec E def v = Ok bs \<Longrightarrow> lens_ok E def v \<Longrightarrow> msgpack_decodes E \<Longrightarrow> decodes_to E def v bs"
proof (induction E def v arbitrary: bs rule: enc_spec.induct)
  case (1 E t v)
  then show ?case by (rule decodes_tag)
next
  case (2 E elem v)
  let ?w = "word_of_nat (length (toSlice v)) :: 32 word"
  from "2.prems"(1) obtain ps where ps: "list_all2 (\<lambda>x p. enc_spec E elem x = Ok p) (toSlice v) ps"
    and bs: "bs = be32 ?w @ concat ps"
    by (auto elim: append_each_OkE)
  have dec: "list_all2 (\<lambda>x p. decodes_to E elem x p) (toSlice v) ps"
    using ps by (rule list.rel_mono_strong) (use 2 in \<open>auto simp: list_all_iff\<close>)
  have n: "unat ?w = length (toSlice v)"
    using "2.prems"(2) by (intro unat_word_small) simp
  show ?case
    unfolding decodes_to_def
  proof (intro allI impI)
    fix b off rest
    assume "at_off b off (bs @ rest)"
    then have at: "at_off b off (be32 ?w @ concat ps @ rest)" by (simp add: bs)
    then have "at_off b (off + 4) (concat ps @ rest)" using at_off_append by fastforce
    from decode_elements [OF dec this, of "[]"] at n
    show "decodeValue E (ArrayDef elem) b off = Ok (coerced E (ArrayDef elem) v, off + length bs)"
      by (simp add: bs at_off_def)
  qed
next
  case (3 E fs v)
  from "3.prems"(1) obtain ps
    where ps: "list_all2 (\<lambda>f p. enc_spec E (Type f) (field_value (toMap v) (Key f)) = Ok p) fs ps"
      and bs: "bs = concat ps"
    by (auto simp: field_case elim: append_each_OkE)
  have dec: "list_all2 (\<lambda>f p. decodes_to E (Type f) (field_value (toMap v) (Key f)) p) fs ps"
    using ps
  proof (rule list.rel_mono_strong)
    fix f p
    assume f: "f \<in> set fs" and e: "enc_spec E (Type f) (field_value (toMap v) (Key f)) = Ok p"
    have "lens_ok E (Type f) (field_value (toMap v) (Key f))"
      using f "3.prems"(2) by (simp add: field_case list_all_iff)
    then show "decodes_to E (Type f) (field_value (toMap v) (Key f)) p"
      using "3.IH" [OF f, of "Key f" "Type f"] e "3.prems"(3) by (cases f) simp
  qed
  show ?case
    unfolding decodes_to_def
    using decode_fields [OF dec] by (simp add: bs field_case)
next
  case (4 E v)
  then show ?case by simp
qed

text \<open>Every size a schema produces fits its prefix: the payload comes back, coerced.\<close>

lemma DecodePayload_encoded:
  assumes "msgpack_decodes E" and "schema_EncodePayload E s v = Ok bs"
    and "lens_ok E (sc_Definition s) v" and "sl_data b = bs @ rest"
  shows "schema_DecodePayload E s b = Ok (coerced E (sc_Definition s) v)"
proof -
  have "decodes_to E (sc_Definition s) v bs"
    using decode_encoded assms by (simp add: EncodePayload_enc_spec)
  moreover have "at_off b 0 (bs @ rest)" using assms(4) by (simp add: at_off_def)
  ultimately show ?thesis by (simp add: schema_DecodePayload_def decodes_toD)
qed

end
