(* ===== verification/Schema_Safety.thy ===== *)
theory Schema_Safety
  imports Schema_Roundtrip
begin

text \<open>
  Well-typed payloads come back unchanged, and what the decoder does on buffers an encoder did not
  produce: how far it reads, and that a truncated payload makes it panic.
\<close>

subsection \<open>Well-typed payloads\<close>

text \<open>
  The Go type column of the README's schema table, and for the dynamic tags a value that msgpack
  itself returns unchanged.
\<close>

fun typed :: "externals \<Rightarrow> schema_def \<Rightarrow> goval \<Rightarrow> bool" where
  "typed E (STag t) v =
     (if t = Uint8_t then (case v of VUint8 _ \<Rightarrow> True | _ \<Rightarrow> False)
      else if t = Boolean_t then (case v of VBool _ \<Rightarrow> True | _ \<Rightarrow> False)
      else if t = Uint16_t then (case v of VUint16 _ \<Rightarrow> True | _ \<Rightarrow> False)
      else if t = Uint32_t then (case v of VUint32 _ \<Rightarrow> True | _ \<Rightarrow> False)
      else if t = Int32_t then (case v of VInt32 _ \<Rightarrow> True | _ \<Rightarrow> False)
      else if t = Float64_t then (case v of VFloat64 _ \<Rightarrow> True | _ \<Rightarrow> False)
      else if t = String_t then (case v of VString _ \<Rightarrow> True | _ \<Rightarrow> False)
      else if t = Bytes_t then (case v of VBytes _ \<Rightarrow> True | _ \<Rightarrow> False)
      else if t = ObjectAny_t \<or> t = ArrayAny_t \<or> t = Any_t then
        (case mp_Marshal E v of Ok p \<Rightarrow> mp_Unmarshal E p = Ok v | _ \<Rightarrow> False)
      else False)"
| "typed E (ArrayDef elem) v = (case v of VList xs \<Rightarrow> list_all (typed E elem) xs | _ \<Rightarrow> False)"
| "typed E (ObjectDef fs) v =
     (case v of
        VMap m \<Rightarrow> fmdom m = fset_of_list (map Key fs) \<and>
          list_all (\<lambda>f. case f of FieldDef k t \<Rightarrow> typed E t (field_value (Some m) k)) fs
      | _ \<Rightarrow> False)"
| "typed E SInvalid v = False"

lemma foldl_fmupd:
  assumes "\<forall>f \<in> set fs. fmlookup m (Key f) = Some (g f)"
  shows "fmlookup (foldl (\<lambda>m f. fmupd (Key f) (g f) m) m0 fs) k
    = (if k \<in> Key ` set fs then fmlookup m k else fmlookup m0 k)"
  using assms by (induction fs arbitrary: m0) auto

lemma word_there_and_back [simp]:
  "ucast (ucast (a :: 8 word) :: 64 word) = a" "ucast (ucast (b :: 16 word) :: 64 word) = b"
  "ucast (ucast (c :: 32 word) :: 64 word) = c" "ucast (scast (c :: 32 word) :: 64 word) = c"
  by (auto intro!: bit_word_eqI simp: bit_simps)

lemma coerced_typed: "typed E def v \<Longrightarrow> coerced E def v = v"
proof (induction E def v rule: typed.induct)
  case (1 E t v)
  then show ?case by (auto split: if_splits goval.splits res.splits)
next
  case (2 E elem v)
  then show ?case by (auto simp: list_all_iff map_idI split: goval.splits)
next
  case (3 E fs v)
  then obtain m where v: "v = VMap m" and dom: "fmdom m = fset_of_list (map Key fs)"
    and ty: "\<forall>f \<in> set fs. typed E (Type f) (field_value (Some m) (Key f))"
    by (auto simp: field_case list_all_iff split: goval.splits)
  let ?g = "\<lambda>f. coerced E (Type f) (field_value (Some m) (Key f))"
  have lookup: "\<forall>f \<in> set fs. fmlookup m (Key f) = Some (?g f)"
  proof
    fix f assume f: "f \<in> set fs"
    then have "Key f |\<in>| fmdom m" by (simp add: dom fset_of_list_elem)
    then obtain w where w: "fmlookup m (Key f) = Some w" by (meson fmdomE)
    have "?g f = field_value (Some m) (Key f)"
      using "3.IH" [of m f "Key f" "Type f"] v f ty by (cases f) auto
    then show "fmlookup m (Key f) = Some (?g f)" using w by (simp add: field_value_def)
  qed
  have "foldl (\<lambda>m f. fmupd (Key f) (?g f) m) fmempty fs = m"
  proof (rule fmap_ext)
    fix k
    have "fmlookup m k = None" if "k \<notin> Key ` set fs"
      using that dom by (metis fmdom_notD fset_of_list_elem list.set_map)
    then show "fmlookup (foldl (\<lambda>m f. fmupd (Key f) (?g f) m) fmempty fs) k = fmlookup m k"
      using foldl_fmupd [OF lookup, of fmempty k] by simp
  qed
  then show ?case by (simp add: v field_case)
next
  case (4 E v)
  then show ?case by simp
qed

text \<open>A well-typed payload always encodes.\<close>

lemma append_each_Ok: "\<forall>x \<in> set xs. \<exists>b. g x = Ok b \<Longrightarrow> \<exists>bs. append_each g xs acc = Ok bs"
  by (induction xs arbitrary: acc) auto

lemma enc_spec_typed: "typed E def v \<Longrightarrow> \<exists>bs. enc_spec E def v = Ok bs"
proof (induction E def v rule: typed.induct)
  case (1 E t v)
  then show ?case by (auto split: if_splits goval.splits res.splits)
next
  case (2 E elem v)
  then show ?case by (auto simp: list_all_iff intro!: append_each_Ok split: goval.splits)
next
  case (3 E fs v)
  then obtain m where v: "v = VMap m"
    and ty: "\<forall>f \<in> set fs. typed E (Type f) (field_value (Some m) (Key f))"
    by (auto simp: field_case list_all_iff split: goval.splits)
  have "\<exists>b. enc_spec E (Type f) (field_value (Some m) (Key f)) = Ok b" if "f \<in> set fs" for f
    using "3.IH" [of m f "Key f" "Type f"] v that ty by (cases f) auto
  then show ?case by (auto simp: v field_case intro!: append_each_Ok)
next
  case (4 E v)
  then show ?case by simp
qed

subsection \<open>How far the decoder reads\<close>

definition within :: "nat \<Rightarrow> nat \<Rightarrow> ('v \<times> nat) res \<Rightarrow> bool" where
  "within off cap r \<longleftrightarrow> (\<forall>v off'. r = Ok (v, off') \<longrightarrow> off \<le> off' \<and> off' \<le> max off cap)"

lemma withinD: "within off cap r \<Longrightarrow> r = Ok (v, off') \<Longrightarrow> off \<le> off' \<and> off' \<le> max off cap"
  by (auto simp: within_def)

lemma within_foldm:
  assumes "\<And>x m off. x \<in> set xs \<Longrightarrow> within off cap (f x (m, off))"
  shows "within off cap (foldm f xs (m, off))"
  using assms
proof (induction xs arbitrary: m off)
  case Nil
  then show ?case by (simp add: within_def)
next
  case (Cons x xs)
  show ?case
    unfolding within_def
  proof (intro allI impI)
    fix v off'
    assume "foldm f (x # xs) (m, off) = Ok (v, off')"
    then obtain m1 off1 where 1: "f x (m, off) = Ok (m1, off1)"
      and 2: "foldm f xs (m1, off1) = Ok (v, off')" by auto
    have "off \<le> off1 \<and> off1 \<le> max off cap" by (rule withinD [OF Cons.prems 1]) simp
    moreover have "off1 \<le> off' \<and> off' \<le> max off1 cap"
      by (rule withinD [OF Cons.IH 2]) (simp add: Cons.prems)
    ultimately show "off \<le> off' \<and> off' \<le> max off cap" by auto
  qed
qed

lemma within_replm:
  assumes "\<And>m off. within off cap (f (m, off))"
  shows "within off cap (replm n f (m, off))"
proof -
  have "replm n f s = foldm (\<lambda>_. f) (replicate n ()) s" for s
    by (induction n arbitrary: s) (auto intro: andThen_cong)
  with within_foldm [of "replicate n ()" cap "\<lambda>_. f"] assms show ?thesis by simp
qed

lemma get_be_within: "get_be n get b off = Ok v \<Longrightarrow> off + n \<le> sl_cap b"
  using get_be_OkD [of n get b off v] by (simp add: sl_len_def sl_cap_def)

lemma sl_index_within: "sl_index b off = Ok v \<Longrightarrow> off + 1 \<le> sl_cap b"
  by (auto simp: sl_index_def sl_len_def sl_cap_def split: if_splits)

lemma read_lp_within: "read_lp b off = Ok (v, off') \<Longrightarrow> off \<le> off' \<and> off' \<le> sl_cap b"
  by (auto simp: read_lp_def sl_range_def Let_def split: if_splits)

lemma within_Err [simp]: "within off cap (Err e)" "within off cap (Panic p)"
  by (simp_all add: within_def)

lemma within_reads:
  "within off (sl_cap b) (andThen (sl_index b off) (\<lambda>v. Ok (g v, off + 1)))"
  "within off (sl_cap b) (andThen (get_u16 b off) (\<lambda>v. Ok (g2 v, off + 2)))"
  "within off (sl_cap b) (andThen (get_u32 b off) (\<lambda>v. Ok (g4 v, off + 4)))"
  "within off (sl_cap b) (andThen (get_u64 b off) (\<lambda>v. Ok (g8 v, off + 8)))"
  unfolding get_word_defs
  by (force simp: within_def dest: sl_index_within get_be_within)+

lemma within_lp:
  "within off (sl_cap b) (andThen (read_lp b off) (\<lambda>(x, off). Ok (g x, off)))"
  "within off (sl_cap b) (andThen (read_lp b off) (\<lambda>(x, off). andThen (h x) (\<lambda>w. Ok (w, off))))"
  by (auto simp: within_def dest!: read_lp_within)

lemma within_map:
  "within off cap r \<Longrightarrow> within off cap (andThen r (\<lambda>(v, off). Ok (h v, off)))"
  by (auto simp: within_def)

lemma decodeValue_within: "within off (sl_cap b) (decodeValue E def b off)"
proof (induction E def b off rule: decodeValue.induct)
  case (1 E t b off)
  show ?case
    by (simp add: within_reads within_lp del: One_nat_def add_2_eq_Suc')
next
  case (2 E elem b off)
  let ?step = "\<lambda>(arr, off). andThen (decodeValue E elem b off) (\<lambda>(v, off). Ok (arr @ [v], off))"
  show ?case
    unfolding within_def
  proof (intro allI impI)
    fix v off'
    assume "decodeValue E (ArrayDef elem) b off = Ok (v, off')"
    then obtain n arr where n: "get_u32 b off = Ok n"
      and r: "replm (unat n) ?step ([], off + 4) = Ok (arr, off')"
      by auto
    have "within (off + 4) (sl_cap b) (replm (unat n) ?step ([], off + 4))"
    proof (rule within_replm)
      fix arr o'
      show "within o' (sl_cap b) (?step (arr, o'))"
        using "2.IH" [OF n] by (simp add: within_map)
    qed
    from withinD [OF this r] get_be_within [OF n [unfolded get_u32_def]]
    show "off \<le> off' \<and> off' \<le> max off (sl_cap b)" by auto
  qed
next
  case (3 E fs b off)
  let ?step = "\<lambda>f (obj, off). andThen (decodeValue E (Type f) b off)
      (\<lambda>(v, off). Ok (fmupd (Key f) v obj, off))"
  have "within off (sl_cap b) (foldm ?step fs (fmempty, off))"
  proof (rule within_foldm)
    fix f o' and m :: "(gostring, goval) fmap" assume mem: "f \<in> set fs"
    obtain k t where f: "f = FieldDef k t" by (cases f)
    have "within o' (sl_cap b) (decodeValue E (Type f) b o')"
      using "3.IH" mem f by auto
    then show "within o' (sl_cap b) (?step f (m, o'))" by (simp add: within_map)
  qed
  then show ?case by (auto simp: within_def field_case)
next
  case (4 E b off)
  then show ?case by (simp add: within_def)
qed

subsection \<open>More bytes change nothing, fewer panic\<close>

text \<open>\<open>keeps r r'\<close>: \<open>r'\<close> is \<open>r\<close> unless \<open>r\<close> panicked.\<close>

definition keeps :: "'a res \<Rightarrow> 'a res \<Rightarrow> bool" where
  "keeps r r' \<longleftrightarrow> (no_panic r \<longrightarrow> r' = r)"

lemma keeps_refl [simp]: "keeps r r"
  by (simp add: keeps_def)

lemma keeps_Panic [simp]: "keeps (Panic p) r"
  by (simp add: keeps_def)

lemma keeps_andThen:
  "keeps m m' \<Longrightarrow> (\<And>x. m = Ok x \<Longrightarrow> keeps (f x) (f' x)) \<Longrightarrow> keeps (andThen m f) (andThen m' f')"
  by (cases m) (auto simp: keeps_def)

lemma keeps_foldm:
  "(\<And>x s. x \<in> set xs \<Longrightarrow> keeps (f x s) (g x s)) \<Longrightarrow> keeps (foldm f xs s) (foldm g xs s)"
  by (induction xs arbitrary: s) (simp_all add: keeps_andThen)

lemma keeps_replm: "(\<And>s. keeps (f s) (g s)) \<Longrightarrow> keeps (replm n f s) (replm n g s)"
  by (induction n arbitrary: s) (simp_all add: keeps_andThen)

definition extends :: "slice \<Rightarrow> slice \<Rightarrow> bool" where
  "extends b b' \<longleftrightarrow> sl_spare b = [] \<and> take (sl_len b) (sl_data b') = sl_data b"

lemma extendsE:
  assumes "extends b b'"
  obtains extra where "sl_spare b = []" and "sl_data b' = sl_data b @ extra"
  using assms by (metis append_take_drop_id extends_def)

lemma keeps_sl_index: "extends b b' \<Longrightarrow> keeps (sl_index b off) (sl_index b' off)"
  by (erule extendsE) (auto simp: keeps_def sl_index_def sl_len_def nth_append)

lemma of_be_append:
  "2 \<le> length bs \<Longrightarrow> of_be16 (bs @ extra) = of_be16 bs"
  "4 \<le> length bs \<Longrightarrow> of_be32 (bs @ extra) = of_be32 bs"
  "8 \<le> length bs \<Longrightarrow> of_be64 (bs @ extra) = of_be64 bs"
  by (auto simp: of_be16_def of_be32_def of_be64_def nth_append)

lemma keeps_get_be:
  assumes "extends b b'" and "\<And>bs extra. n \<le> length bs \<Longrightarrow> get (bs @ extra) = get bs"
  shows "keeps (get_be n get b off) (get_be n get b' off)"
  using assms(1)
  by (rule extendsE) (auto simp: keeps_def get_be_def sl_from_def sl_len_def assms(2) split: if_splits)

lemma keeps_get:
  assumes "extends b b'"
  shows "keeps (get_u16 b off) (get_u16 b' off)" "keeps (get_u32 b off) (get_u32 b' off)"
    "keeps (get_u64 b off) (get_u64 b' off)"
  unfolding get_word_defs using assms by (auto intro!: keeps_get_be of_be_append)

lemma keeps_read_lp:
  assumes "extends b b'"
  shows "keeps (read_lp b off) (read_lp b' off)"
  unfolding read_lp_def
proof (rule keeps_andThen)
  show "keeps (get_u32 b off) (get_u32 b' off)" by (rule keeps_get(2) [OF assms])
  fix w :: "32 word"
  from assms show "keeps
     (let n = unat w; off = off + 4 in andThen (sl_range b off (off + n)) (\<lambda>sub. Ok (sl_data sub, off + n)))
     (let n = unat w; off = off + 4 in andThen (sl_range b' off (off + n)) (\<lambda>sub. Ok (sl_data sub, off + n)))"
    by (rule extendsE) (auto simp: keeps_def sl_range_def sl_cap_def Let_def)
qed

lemma decodeValue_extends:
  "extends b b' \<Longrightarrow> keeps (decodeValue E def b off) (decodeValue E def b' off)"
proof (induction E def b off rule: decodeValue.induct)
  case (1 E t b off)
  then show ?case
    by (auto intro!: keeps_andThen keeps_sl_index keeps_get keeps_read_lp split: prod.splits)
next
  case (2 E elem b off)
  then show ?case
    by (auto intro!: keeps_andThen keeps_get keeps_replm split: prod.splits)
next
  case (3 E fs b off)
  have "keeps (decodeValue E (Type f) b o') (decodeValue E (Type f) b' o')" if "f \<in> set fs" for f o'
    using 3 that by (cases f) auto
  then show ?case
    by (auto simp: field_case intro!: keeps_andThen keeps_foldm split: prod.splits)
next
  case (4 E b off)
  then show ?case by simp
qed

text \<open>A payload cut short anywhere, in a buffer with no spare capacity, panics.\<close>

lemma truncated_panics:
  assumes "msgpack_decodes E" and "enc_spec E def v = Ok bs" and "lens_ok E def v"
    and "n < length bs"
  shows "\<exists>p. decodeValue E def (full_slice (take n bs)) 0 = Panic p"
proof (rule ccontr)
  let ?short = "full_slice (take n bs)" and ?full = "full_slice bs"
  assume "\<not> ?thesis"
  then have "no_panic (decodeValue E def ?short 0)" by (simp add: no_panic_iff)
  moreover have "extends ?short ?full"
    using assms(4) by (simp add: extends_def full_slice_def sl_len_def)
  ultimately have "decodeValue E def ?full 0 = decodeValue E def ?short 0"
    using decodeValue_extends by (auto simp: keeps_def)
  moreover have "decodeValue E def ?full 0 = Ok (coerced E def v, 0 + length bs)"
    by (rule decodes_toD [OF decode_encoded [OF assms(2,3,1)], where rest = "[]"])
       (simp add: at_off_def full_slice_def)
  ultimately have "decodeValue E def ?short 0 = Ok (coerced E def v, length bs)" by simp
  from withinD [OF decodeValue_within this] have "length bs \<le> sl_cap ?short" by simp
  then show False using assms(4) by (simp add: sl_cap_def full_slice_def)
qed

end
