(* ===== verification/Frame_Codec.thy ===== *)
theory Frame_Codec
  imports Schema_Safety
begin

text \<open>
  \<open>protocol/protocol.go\<close>, \<open>compress.go\<close>, \<open>encoder.go\<close> and \<open>decoder.go\<close>: the payload
  serializers and the frame
  \<open>[type:1][nspLen:1][nsp][eventLen:1][event][ackId:4][payload...]\<close>.
  The frame layer relies on a payload codec through the locale \<open>payload_codec\<close>; the schema codec
  and the default codec are its two interpretations.
\<close>

subsection \<open>Serializers\<close>

text \<open>A \<open>nil\<close> function field is \<open>None\<close>; calling it panics.\<close>

record serializers =
  EncodePayload :: "(goval \<Rightarrow> byte list res) option"
  DecodePayload :: "(slice \<Rightarrow> goval res) option"
  DecodePayloadWithEvent :: "(slice \<Rightarrow> gostring \<Rightarrow> gostring \<Rightarrow> goval res) option"

definition call :: "('a \<Rightarrow> 'b res) option \<Rightarrow> 'a \<Rightarrow> 'b res" where
  "call fn x = (case fn of None \<Rightarrow> Panic NilCall | Some f \<Rightarrow> f x)"

lemma call_simps [simp]: "call None x = Panic NilCall" "call (Some f) x = f x"
  by (simp_all add: call_def)

definition deflateRaw :: "externals \<Rightarrow> byte list \<Rightarrow> byte list res" where
  "deflateRaw E data =
     (case fl_NewWriter E of Some e \<Rightarrow> Err e
      | None \<Rightarrow> (case fl_Write E data of Some e \<Rightarrow> Err e
                 | None \<Rightarrow> fl_Close E data))"

definition inflateRaw :: "externals \<Rightarrow> byte list \<Rightarrow> byte list res" where
  "inflateRaw E data = fl_ReadAll E data"

definition DefaultEncodePayload :: "externals \<Rightarrow> goval \<Rightarrow> byte list res" where
  "DefaultEncodePayload E payload = andThen (mp_Marshal E payload) (deflateRaw E)"

definition DefaultDecodePayload :: "externals \<Rightarrow> slice \<Rightarrow> goval res" where
  "DefaultDecodePayload E buf = andThen (inflateRaw E (sl_data buf)) (mp_Unmarshal E)"

definition DefaultSerializers :: "externals \<Rightarrow> serializers" where
  "DefaultSerializers E =
     \<lparr>EncodePayload = Some (DefaultEncodePayload E), DecodePayload = Some (DefaultDecodePayload E),
      DecodePayloadWithEvent = None\<rparr>"

definition ser_or_default :: "externals \<Rightarrow> serializers option \<Rightarrow> serializers" where
  "ser_or_default E ser = (case ser of None \<Rightarrow> DefaultSerializers E | Some s \<Rightarrow> s)"

lemma ser_or_default_simps [simp]:
  "ser_or_default E None = DefaultSerializers E" "ser_or_default E (Some s) = s"
  by (simp_all add: ser_or_default_def)

subsection \<open>Encoding a frame\<close>

record frame_options =
  fo_Type :: byte
  fo_Nsp :: gostring
  fo_Event :: gostring
  fo_AckID :: "32 word"
  fo_Payload :: goval

definition EncodeFrame :: "externals \<Rightarrow> frame_options \<Rightarrow> serializers option \<Rightarrow> byte list res" where
  "EncodeFrame E opts ser0 =
     (let ser = ser_or_default E ser0;
          nsp = (if fo_Nsp opts = [] then ''/'' else fo_Nsp opts);
          nspBytes = str_bytes nsp;
          eventBytes = str_bytes (fo_Event opts)
      in andThen (if fo_Payload opts \<noteq> VNil then call (EncodePayload ser) (fo_Payload opts) else Ok [])
         (\<lambda>payloadBytes.
      let frameSize = 1 + 1 + length nspBytes + 1 + length eventBytes + 4 + length payloadBytes;
          buf = replicate frameSize 0;
          off = 0
      in andThen (buf_set buf off (fo_Type opts)) (\<lambda>buf.
      let off = off + 1
      in andThen (buf_set buf off (word_of_nat (length nspBytes))) (\<lambda>buf.
      let off = off + 1
      in andThen (buf_copy buf off nspBytes) (\<lambda>buf.
      let off = off + length nspBytes
      in andThen (buf_set buf off (word_of_nat (length eventBytes))) (\<lambda>buf.
      let off = off + 1
      in andThen (buf_copy buf off eventBytes) (\<lambda>buf.
      let off = off + length eventBytes
      in andThen (put_be buf off (be32 (fo_AckID opts))) (\<lambda>buf.
      let off = off + 4
      in if 0 < length payloadBytes then buf_copy buf off payloadBytes else Ok buf))))))))"

subsection \<open>Decoding a frame\<close>

record frame_header =
  fh_Type :: byte
  fh_Nsp :: gostring
  fh_Event :: gostring
  fh_AckID :: "32 word"

record frame =
  fr_Type :: byte
  fr_Nsp :: gostring
  fr_Event :: gostring
  fr_AckID :: "32 word"
  fr_Payload :: goval

definition DecodeFrameHeader :: "slice \<Rightarrow> (frame_header \<times> slice) res" where
  "DecodeFrameHeader raw =
     (let off = 0 in
      if sl_len raw < off + 1 then Err (FrameTooShort ''type'') else
      andThen (sl_index raw off) (\<lambda>typ. let off = off + 1 in
      if sl_len raw < off + 1 then Err (FrameTooShort ''nsp length'') else
      andThen (sl_index raw off) (\<lambda>b. let nspLen = unat b; off = off + 1 in
      if sl_len raw < off + nspLen then Err (FrameTooShort ''nsp'') else
      andThen (sl_range raw off (off + nspLen)) (\<lambda>s. let nsp = bytes_str (sl_data s); off = off + nspLen in
      if sl_len raw < off + 1 then Err (FrameTooShort ''event length'') else
      andThen (sl_index raw off) (\<lambda>b. let eventLen = unat b; off = off + 1 in
      if sl_len raw < off + eventLen then Err (FrameTooShort ''event'') else
      andThen (sl_range raw off (off + eventLen)) (\<lambda>s. let event = bytes_str (sl_data s); off = off + eventLen in
      if sl_len raw < off + 4 then Err (FrameTooShort ''ackId'') else
      andThen (sl_range raw off (off + 4)) (\<lambda>s.
      andThen (get_u32 s 0) (\<lambda>ackID. let off = off + 4 in
      andThen (sl_from raw off) (\<lambda>rest.
      Ok (\<lparr>fh_Type = typ, fh_Nsp = nsp, fh_Event = event, fh_AckID = ackID\<rparr>, rest))))))))))"

definition DecodeFrame :: "externals \<Rightarrow> slice \<Rightarrow> serializers option \<Rightarrow> frame res" where
  "DecodeFrame E raw ser0 =
     (let ser = ser_or_default E ser0 in
      andThen (DecodeFrameHeader raw) (\<lambda>(hdr, payloadBytes).
      andThen (if 0 < sl_len payloadBytes then
                 (case DecodePayloadWithEvent ser of
                    Some f \<Rightarrow> f payloadBytes (fh_Event hdr) (fh_Nsp hdr)
                  | None \<Rightarrow> call (DecodePayload ser) payloadBytes)
               else Ok VNil)
        (\<lambda>payload. Ok \<lparr>fr_Type = fh_Type hdr, fr_Nsp = fh_Nsp hdr, fr_Event = fh_Event hdr,
           fr_AckID = fh_AckID hdr, fr_Payload = payload\<rparr>)))"

subsection \<open>The frame layout\<close>

definition header_bytes :: "byte \<Rightarrow> gostring \<Rightarrow> gostring \<Rightarrow> 32 word \<Rightarrow> byte list" where
  "header_bytes typ nsp ev ack =
     typ # word_of_nat (length nsp) # str_bytes nsp @ word_of_nat (length ev) # str_bytes ev @ be32 ack"

definition nsp_or_root :: "gostring \<Rightarrow> gostring" where
  "nsp_or_root nsp = (if nsp = [] then ''/'' else nsp)"

definition opts_header :: "frame_options \<Rightarrow> byte list" where
  "opts_header opts =
     header_bytes (fo_Type opts) (nsp_or_root (fo_Nsp opts)) (fo_Event opts) (fo_AckID opts)"

definition payload_bytes :: "externals \<Rightarrow> serializers option \<Rightarrow> goval \<Rightarrow> byte list res" where
  "payload_bytes E ser v =
     (if v = VNil then Ok [] else call (EncodePayload (ser_or_default E ser)) v)"

lemma length_header_bytes [simp, go_buf]:
  "length (header_bytes typ nsp ev ack) = 7 + length nsp + length ev"
  by (simp add: header_bytes_def)

text \<open>Successive writes are one write of the concatenation.\<close>

lemma overwrite_next [go_buf]:
  "k = off + length xs \<Longrightarrow> off + length xs \<le> length buf \<Longrightarrow>
    overwrite (overwrite buf off xs) k ys = overwrite buf off (xs @ ys)"
  by simp

lemma EncodeFrame_layout:
  "EncodeFrame E opts ser =
     andThen (payload_bytes E ser (fo_Payload opts)) (\<lambda>pb. Ok (opts_header opts @ pb))"
proof (cases "payload_bytes E ser (fo_Payload opts)")
  case (Ok pb)
  define nsp where "nsp = nsp_or_root (fo_Nsp opts)"
  define ev where "ev = fo_Event opts"
  have nsp: "(if fo_Nsp opts = [] then ''/'' else fo_Nsp opts) = nsp"
    by (simp add: nsp_def nsp_or_root_def)
  have pb: "(if fo_Payload opts \<noteq> VNil then call (EncodePayload (ser_or_default E ser)) (fo_Payload opts)
      else Ok []) = Ok pb"
    using Ok by (simp add: payload_bytes_def split: if_splits)
  define n where "n = 1 + 1 + length nsp + 1 + length ev + 4 + length pb"
  have len: "length (opts_header opts @ pb) = n"
    by (simp add: opts_header_def nsp_def ev_def n_def)
  have "EncodeFrame E opts ser = Ok (overwrite (replicate n 0) 0 (opts_header opts @ pb))"
    unfolding EncodeFrame_def Let_def nsp pb andThen_simps
    by (cases "pb = []")
       (simp_all add: n_def ev_def opts_header_def header_bytes_def overwrite_next flip: nsp_def)
  then show ?thesis using Ok len by (simp add: overwrite_all)
qed (auto simp: EncodeFrame_def payload_bytes_def Let_def)

subsection \<open>What the header decoder accepts\<close>

text \<open>The bytes hold a whole header.\<close>

definition header_complete :: "byte list \<Rightarrow> bool" where
  "header_complete d =
     (case d of
        typ # n # d' \<Rightarrow> unat n < length d' \<and> unat n + 1 + unat (d' ! unat n) + 4 \<le> length d'
      | _ \<Rightarrow> False)"

lemma DecodeFrameHeader_whole:
  assumes "sl_data raw = typ # n # ns @ m # es @ a @ r"
    and "length ns = unat n" and "length es = unat m" and "length a = 4"
  shows "DecodeFrameHeader raw =
    Ok (\<lparr>fh_Type = typ, fh_Nsp = bytes_str ns, fh_Event = bytes_str es, fh_AckID = of_be32 a\<rparr>,
        \<lparr>sl_data = r, sl_spare = sl_spare raw\<rparr>)"
proof -
  have len: "length (sl_data raw) = 2 + unat n + 1 + unat m + 4 + length r"
    using assms by simp
  let ?p = "typ # n # ns @ m # es @ a"
  have "sl_data raw = ?p @ r" using assms(1) by simp
  then have "drop (length ?p) (sl_data raw) = r" by (metis append_eq_conv_conj)
  moreover have "length ?p = 7 + (unat n + unat m)" using assms(2-4) by simp
  ultimately have "drop (7 + (unat n + unat m)) (sl_data raw) = r" by metis
  then have tl: "raw\<lparr>sl_data := drop (7 + (unat n + unat m)) (sl_data raw)\<rparr>
      = \<lparr>sl_data = r, sl_spare = sl_spare raw\<rparr>"
    by simp
  show ?thesis
    using assms len tl
    by (simp add: DecodeFrameHeader_def Let_def sl_len_def sl_cap_def sl_index_def sl_range_def
        get_u32_def get_be_def nth_append)
qed

text \<open>Every byte sequence is a whole header and a rest, or too short somewhere.\<close>

lemma header_completeE:
  assumes "header_complete d"
  obtains ty n ns m es a r where "d = ty # n # ns @ m # es @ a @ r"
    and "length ns = unat n" and "length es = unat m" and "length a = 4"
proof -
  obtain ty n d' where d: "d = ty # n # d'" and n: "unat n < length d'"
    and m: "unat n + 1 + unat (d' ! unat n) + 4 \<le> length d'"
    using assms by (auto simp: header_complete_def split: list.splits)
  let ?m = "d' ! unat n" and ?d2 = "drop (Suc (unat n)) d'"
  have "d' = take (unat n) d' @ ?m # ?d2" using n by (simp add: id_take_nth_drop)
  moreover have "?d2 = take (unat ?m) ?d2 @ take 4 (drop (unat ?m) ?d2) @ drop 4 (drop (unat ?m) ?d2)"
    by (simp only: append_take_drop_id)
  ultimately have "d = ty # n # take (unat n) d' @ ?m # take (unat ?m) ?d2
      @ take 4 (drop (unat ?m) ?d2) @ drop 4 (drop (unat ?m) ?d2)"
    using d by simp
  from that [OF this] show thesis using n m by auto
qed

lemma DecodeFrameHeader_short:
  assumes "\<not> header_complete (sl_data raw)"
  shows "\<exists>s. DecodeFrameHeader raw = Err (FrameTooShort s)"
proof -
  consider "length (sl_data raw) < 2" | (hdr) t n d' where "sl_data raw = t # n # d'"
    by (cases "sl_data raw"; cases "tl (sl_data raw)") auto
  then show ?thesis
  proof cases
    case 1
    then show ?thesis
      by (auto simp: DecodeFrameHeader_def Let_def sl_len_def sl_index_def)
  next
    case hdr
    with assms show ?thesis
      by (auto simp: DecodeFrameHeader_def Let_def sl_len_def sl_cap_def sl_index_def sl_range_def
          header_complete_def nth_append)
  qed
qed

lemma DecodeFrameHeader_no_panic: "no_panic (DecodeFrameHeader raw)"
proof (cases "header_complete (sl_data raw)")
  case True
  then show ?thesis by (rule header_completeE) (simp add: DecodeFrameHeader_whole)
next
  case False
  from DecodeFrameHeader_short [OF this] show ?thesis by auto
qed

lemma frame_header_total_ok:
  "header_complete (sl_data raw) \<Longrightarrow> \<exists>h rest. DecodeFrameHeader raw = Ok (h, rest)"
  by (erule header_completeE) (simp add: DecodeFrameHeader_whole)

text \<open>A header that decodes is the layout of what was decoded.\<close>

lemma DecodeFrameHeader_OkD:
  assumes "DecodeFrameHeader raw = Ok (h, rest)"
  shows "sl_data raw = header_bytes (fh_Type h) (fh_Nsp h) (fh_Event h) (fh_AckID h) @ sl_data rest
    \<and> sl_spare rest = sl_spare raw \<and> length (fh_Nsp h) < 256 \<and> length (fh_Event h) < 256"
proof -
  have "header_complete (sl_data raw)"
    using assms DecodeFrameHeader_short [of raw] by auto
  then obtain ty n ns m es a r where d: "sl_data raw = ty # n # ns @ m # es @ a @ r"
    and l: "length ns = unat n" "length es = unat m" "length a = 4"
    by (rule header_completeE)
  have b: "unat (x :: byte) < 256" for x
  proof -
    have "unat x < 2 ^ LENGTH(8)" by (rule unsigned_less)
    then show ?thesis by simp
  qed
  have "be32 (of_be32 a) = a" using u32.put_get [of a] l(3) by simp
  then show ?thesis
    using assms DecodeFrameHeader_whole [OF d l] d l b by (auto simp: header_bytes_def)
qed

lemma DecodeFrameHeader_header_bytes:
  assumes "sl_data raw = header_bytes typ nsp ev ack @ r"
    and "length nsp < 256" and "length ev < 256"
  shows "DecodeFrameHeader raw =
    Ok (\<lparr>fh_Type = typ, fh_Nsp = nsp, fh_Event = ev, fh_AckID = ack\<rparr>,
        \<lparr>sl_data = r, sl_spare = sl_spare raw\<rparr>)"
proof -
  have "unat (word_of_nat (length nsp) :: byte) = length nsp"
    "unat (word_of_nat (length ev) :: byte) = length ev"
    using assms(2,3) by (auto intro: unat_word_small)
  with assms(1) show ?thesis
    using DecodeFrameHeader_whole [of raw "typ" "word_of_nat (length nsp)" "str_bytes nsp"
        "word_of_nat (length ev)" "str_bytes ev" "be32 ack" r]
      u32.get_put [of ack "[]"]
    by (simp add: header_bytes_def)
qed

subsection \<open>The payload codec interface\<close>

text \<open>
  What the frame layer needs of a serializer pair: on the values it covers (\<open>covers\<close>), decoding the
  bytes of an encoded value gives its \<open>wire_value\<close>, whatever spare capacity the slice has.
\<close>

locale payload_codec =
  fixes enc :: "goval \<Rightarrow> byte list res"
    and dec :: "slice \<Rightarrow> goval res"
    and covers :: "goval \<Rightarrow> bool"
    and wire_value :: "goval \<Rightarrow> goval"
  assumes dec_enc: "covers v \<Longrightarrow> enc v = Ok bs \<Longrightarrow> sl_data b = bs \<Longrightarrow> dec b = Ok (wire_value v)"
begin

definition reads_with :: "serializers \<Rightarrow> gostring \<Rightarrow> gostring \<Rightarrow> bool" where
  "reads_with ser nsp ev \<longleftrightarrow>
     (case DecodePayloadWithEvent ser of
        Some f \<Rightarrow> (\<forall>b. f b ev nsp = dec b)
      | None \<Rightarrow> DecodePayload ser = Some dec)"

text \<open>A frame comes back, its payload as the codec carries it; no payload bytes is no payload.\<close>

lemma frame_round_trip:
  assumes raw: "EncodeFrame E opts ser = Ok bytes"
    and enc: "EncodePayload (ser_or_default E ser) = Some enc"
    and dec: "reads_with (ser_or_default E ser') (nsp_or_root (fo_Nsp opts)) (fo_Event opts)"
    and lens: "length (fo_Nsp opts) < 256" "length (fo_Event opts) < 256"
    and cov: "fo_Payload opts = VNil \<or> covers (fo_Payload opts)"
    and b: "sl_data b = bytes"
  shows "DecodeFrame E b ser' =
    Ok \<lparr>fr_Type = fo_Type opts, fr_Nsp = nsp_or_root (fo_Nsp opts), fr_Event = fo_Event opts,
        fr_AckID = fo_AckID opts,
        fr_Payload = (if fo_Payload opts = VNil \<or> enc (fo_Payload opts) = Ok []
          then VNil else wire_value (fo_Payload opts))\<rparr>"
proof -
  obtain pb where pb: "payload_bytes E ser (fo_Payload opts) = Ok pb"
    and bytes: "bytes = opts_header opts @ pb"
    using raw by (auto simp: EncodeFrame_layout)
  have hdr: "DecodeFrameHeader b =
      Ok (\<lparr>fh_Type = fo_Type opts, fh_Nsp = nsp_or_root (fo_Nsp opts), fh_Event = fo_Event opts,
           fh_AckID = fo_AckID opts\<rparr>, \<lparr>sl_data = pb, sl_spare = sl_spare b\<rparr>)"
    using b bytes lens by (intro DecodeFrameHeader_header_bytes) (auto simp: opts_header_def nsp_or_root_def)
  show ?thesis
  proof (cases "pb = []")
    case True
    with pb enc have "fo_Payload opts = VNil \<or> enc (fo_Payload opts) = Ok []"
      by (auto simp: payload_bytes_def split: if_splits)
    with True hdr show ?thesis by (simp add: DecodeFrame_def sl_len_def)
  next
    case False
    with pb enc have e: "fo_Payload opts \<noteq> VNil" "enc (fo_Payload opts) = Ok pb"
      by (auto simp: payload_bytes_def split: if_splits)
    with cov have "dec \<lparr>sl_data = pb, sl_spare = sl_spare b\<rparr> = Ok (wire_value (fo_Payload opts))"
      by (intro dec_enc) auto
    with False hdr e dec show ?thesis
      by (simp add: DecodeFrame_def sl_len_def reads_with_def split: option.splits)
  qed
qed

end

text \<open>The schema codec provides it, on payloads whose lengths fit their prefixes.\<close>

interpretation schema_payload: payload_codec
  "schema_EncodePayload E s" "schema_DecodePayload E s"
  "\<lambda>v. msgpack_decodes E \<and> lens_ok E (sc_Definition s) v" "coerced E (sc_Definition s)" for E s
  by unfold_locales (auto intro: DecodePayload_encoded [where rest = "[]"])

text \<open>
  The default codec provides it when decompressing gives back what was compressed, the documented
  behaviour of \<open>compress/flate\<close>.
\<close>

definition flate_inverts :: "externals \<Rightarrow> bool" where
  "flate_inverts E \<longleftrightarrow> (\<forall>data b. fl_Close E data = Ok b \<longrightarrow> fl_ReadAll E b = Ok data)"

definition msgpack_value :: "externals \<Rightarrow> goval \<Rightarrow> goval" where
  "msgpack_value E v =
     (case mp_Marshal E v of
        Ok p \<Rightarrow> (case mp_Unmarshal E p of Ok w \<Rightarrow> w | _ \<Rightarrow> VNil)
      | _ \<Rightarrow> VNil)"

lemma deflateRaw_OkD: "deflateRaw E d = Ok b \<Longrightarrow> fl_Close E d = Ok b"
  by (auto simp: deflateRaw_def split: option.splits)

interpretation default_payload: payload_codec
  "DefaultEncodePayload E" "DefaultDecodePayload E"
  "\<lambda>v. msgpack_decodes E \<and> flate_inverts E" "msgpack_value E" for E
proof unfold_locales
  fix v bs and b :: slice
  assume laws: "msgpack_decodes E \<and> flate_inverts E" and enc: "DefaultEncodePayload E v = Ok bs"
    and b: "sl_data b = bs"
  from enc obtain p where p: "mp_Marshal E v = Ok p" "deflateRaw E p = Ok bs"
    by (auto simp: DefaultEncodePayload_def)
  then have "fl_ReadAll E bs = Ok p" using laws deflateRaw_OkD by (auto simp: flate_inverts_def)
  moreover obtain w where "mp_Unmarshal E p = Ok w" using laws p by (auto simp: msgpack_decodes_def)
  ultimately show "DefaultDecodePayload E b = Ok (msgpack_value E v)"
    using b p by (simp add: DefaultDecodePayload_def inflateRaw_def msgpack_value_def)
qed

end
