(* ===== verification/Schema_Wire.thy ===== *)
theory Schema_Wire
  imports Frame_Codec
begin

text \<open>
  \<open>protocol/schema_wire.go\<close>: schema definitions on the wire, field order kept. The encoder and
  decoder of the msgpack package are parameters; what the program relies on is that a token which was
  written is read back, that the code of the next token tells its kind, and (for termination) that
  reading a token consumes bytes.

  The decoder recurses once per nesting level of its input. The fuel of \<open>decodeSchemaDef\<close> is the
  recursion depth the Go stack has room for; running out of it is Go's fatal stack overflow. A depth
  of the input's length plus one is always enough.
\<close>

subsection \<open>Writing\<close>

fun writeSchemaDef :: "externals \<Rightarrow> schema_def \<Rightarrow> byte list \<Rightarrow> byte list res" where
  "writeSchemaDef E (STag t) out = andThen (mp_EncodeString E t) (\<lambda>b. Ok (out @ b))"
| "writeSchemaDef E (ArrayDef elem) out =
     andThen (mp_EncodeArrayLen E 1) (\<lambda>b. writeSchemaDef E elem (out @ b))"
| "writeSchemaDef E (ObjectDef fs) out =
     andThen (mp_EncodeMapLen E (int (length fs))) (\<lambda>b.
     foldm (\<lambda>f out. case f of FieldDef k t \<Rightarrow>
         andThen (mp_EncodeString E k) (\<lambda>b. writeSchemaDef E t (out @ b))) fs (out @ b))"
| "writeSchemaDef E SInvalid out = Err InvalidDefinition"

definition WireSchemaDef :: "schema_def \<Rightarrow> goval" where
  "WireSchemaDef def = VWireDef def"

definition EncodeMsgpack :: "externals \<Rightarrow> schema_def \<Rightarrow> byte list \<Rightarrow> byte list res" where
  "EncodeMsgpack E w out = writeSchemaDef E w out"

subsection \<open>Reading\<close>

text \<open>The three kinds of code the switch tells apart.\<close>

definition array_code :: "externals \<Rightarrow> byte \<Rightarrow> bool" where
  "array_code E c \<longleftrightarrow> mp_IsFixedArray E c \<or> c = mp_Array16 E \<or> c = mp_Array32 E"

definition map_code :: "externals \<Rightarrow> byte \<Rightarrow> bool" where
  "map_code E c \<longleftrightarrow> mp_IsFixedMap E c \<or> c = mp_Map16 E \<or> c = mp_Map32 E"

definition string_code :: "externals \<Rightarrow> byte \<Rightarrow> bool" where
  "string_code E c \<longleftrightarrow> mp_IsString E c \<or> mp_IsBin E c"

fun decodeSchemaDef :: "externals \<Rightarrow> nat \<Rightarrow> byte list \<Rightarrow> (schema_def \<times> byte list) res" where
  "decodeSchemaDef E 0 dec = Panic StackOverflow"
| "decodeSchemaDef E (Suc depth) dec =
     andThen (mp_PeekCode E dec) (\<lambda>code.
       if string_code E code then
         andThen (mp_DecodeString E dec) (\<lambda>(s, dec). Ok (STag s, dec))
       else if array_code E code then
         andThen (mp_DecodeArrayLen E dec) (\<lambda>(n, dec).
           if n \<noteq> 1 then Err InvalidArrayOnWire
           else andThen (decodeSchemaDef E depth dec) (\<lambda>(elem, dec). Ok (ArrayDef elem, dec)))
       else if map_code E code then
         andThen (mp_DecodeMapLen E dec) (\<lambda>(n, dec).
           if n < 0 then Panic MakeSliceRange
           else andThen (replm (nat n) (\<lambda>(fs, dec).
               andThen (mp_DecodeString E dec) (\<lambda>(key, dec).
               andThen (decodeSchemaDef E depth dec) (\<lambda>(val, dec).
               Ok (fs @ [FieldDef key val], dec)))) ([], dec))
             (\<lambda>(fs, dec). Ok (ObjectDef fs, dec)))
       else Err (UnsupportedOnWire code))"

type_synonym def_table = "(gostring, schema_def) fmap"

text \<open>
  The two table readers have the same loop; a negative count (msgpack nil) makes it run no rounds.
\<close>

definition decode_table ::
  "externals \<Rightarrow> (byte list \<Rightarrow> ('v \<times> byte list) res) \<Rightarrow> byte list \<Rightarrow> ((gostring, 'v) fmap \<times> byte list) res" where
  "decode_table E rd dec =
     andThen (mp_DecodeMapLen E dec) (\<lambda>(n, dec).
     replm (nat n) (\<lambda>(out, dec).
         andThen (mp_DecodeString E dec) (\<lambda>(key, dec).
         andThen (rd dec) (\<lambda>(val, dec). Ok (fmupd key val out, dec)))) (fmempty, dec))"

definition decodeSchemaDefMap :: "externals \<Rightarrow> nat \<Rightarrow> byte list \<Rightarrow> (def_table \<times> byte list) res" where
  "decodeSchemaDefMap E depth dec = decode_table E (decodeSchemaDef E depth) dec"

definition DecodeNamespaceSchemaPayload :: "externals \<Rightarrow> nat \<Rightarrow> slice \<Rightarrow> def_table res" where
  "DecodeNamespaceSchemaPayload E depth raw =
     andThen (inflateRaw E (sl_data raw)) (\<lambda>inflated.
     andThen (decodeSchemaDefMap E depth inflated) (\<lambda>(out, dec). Ok out))"

definition DecodeRootSchemaPayload :: "externals \<Rightarrow> nat \<Rightarrow> slice \<Rightarrow> (gostring, def_table) fmap res" where
  "DecodeRootSchemaPayload E depth raw =
     andThen (inflateRaw E (sl_data raw)) (\<lambda>inflated.
     andThen (decode_table E (decodeSchemaDefMap E depth) inflated) (\<lambda>(out, dec). Ok out))"

subsection \<open>What is relied on of the msgpack package\<close>

text \<open>A token that was written is read back, and its first byte tells what it is.\<close>

definition msgpack_tokens :: "externals \<Rightarrow> bool" where
  "msgpack_tokens E \<longleftrightarrow>
     (\<forall>s b rest. length s < 2 ^ 32 \<longrightarrow> mp_EncodeString E s = Ok b \<longrightarrow>
        mp_DecodeString E (b @ rest) = Ok (s, rest) \<and>
        (\<exists>c. mp_PeekCode E (b @ rest) = Ok c \<and> string_code E c)) \<and>
     (\<forall>n b rest. 0 \<le> n \<longrightarrow> n < 2 ^ 32 \<longrightarrow> mp_EncodeArrayLen E n = Ok b \<longrightarrow>
        mp_DecodeArrayLen E (b @ rest) = Ok (n, rest) \<and>
        (\<exists>c. mp_PeekCode E (b @ rest) = Ok c \<and> \<not> string_code E c \<and> array_code E c)) \<and>
     (\<forall>n b rest. 0 \<le> n \<longrightarrow> n < 2 ^ 32 \<longrightarrow> mp_EncodeMapLen E n = Ok b \<longrightarrow>
        mp_DecodeMapLen E (b @ rest) = Ok (n, rest) \<and>
        (\<exists>c. mp_PeekCode E (b @ rest) = Ok c \<and> \<not> string_code E c \<and> \<not> array_code E c \<and> map_code E c))"

lemma msgpack_tokensD:
  assumes "msgpack_tokens E"
  shows "length s < 2 ^ 32 \<Longrightarrow> mp_EncodeString E s = Ok b \<Longrightarrow>
      mp_DecodeString E (b @ rest) = Ok (s, rest) \<and>
      (\<exists>c. mp_PeekCode E (b @ rest) = Ok c \<and> string_code E c)"
    and "0 \<le> n \<Longrightarrow> n < 2 ^ 32 \<Longrightarrow> mp_EncodeArrayLen E n = Ok b \<Longrightarrow>
      mp_DecodeArrayLen E (b @ rest) = Ok (n, rest) \<and>
      (\<exists>c. mp_PeekCode E (b @ rest) = Ok c \<and> \<not> string_code E c \<and> array_code E c)"
    and "0 \<le> n \<Longrightarrow> n < 2 ^ 32 \<Longrightarrow> mp_EncodeMapLen E n = Ok b \<Longrightarrow>
      mp_DecodeMapLen E (b @ rest) = Ok (n, rest) \<and>
      (\<exists>c. mp_PeekCode E (b @ rest) = Ok c \<and> \<not> string_code E c \<and> \<not> array_code E c \<and> map_code E c)"
  using assms unfolding msgpack_tokens_def by blast+

text \<open>Reading a token consumes at least a byte, and reports bad input as an error, never a panic.\<close>

definition consumes :: "(byte list \<Rightarrow> ('v \<times> byte list) res) \<Rightarrow> bool" where
  "consumes rd \<longleftrightarrow> (\<forall>dec. no_panic (rd dec) \<and> (\<forall>v dec'. rd dec = Ok (v, dec') \<longrightarrow> length dec' < length dec))"

definition msgpack_consumes :: "externals \<Rightarrow> bool" where
  "msgpack_consumes E \<longleftrightarrow> consumes (mp_DecodeString E) \<and> consumes (mp_DecodeArrayLen E)
     \<and> consumes (mp_DecodeMapLen E) \<and> (\<forall>dec. no_panic (mp_PeekCode E dec))"

text \<open>
  \<open>Marshal\<close> writes a \<open>map[string]interface{}\<close> as its length and its entries in some order, and calls
  the \<open>EncodeMsgpack\<close> of a value that has one.
\<close>

definition msgpack_maps :: "externals \<Rightarrow> bool" where
  "msgpack_maps E \<longleftrightarrow>
     (\<forall>d. mp_Marshal E (VWireDef d) = EncodeMsgpack E d []) \<and>
     (\<forall>m bs. mp_Marshal E (VMap m) = Ok bs \<longrightarrow>
        (\<exists>ks hb ps. distinct ks \<and> set ks = fset (fmdom m) \<and>
           mp_EncodeMapLen E (int (length ks)) = Ok hb \<and>
           list_all2 (\<lambda>k p. \<exists>kb vb. mp_EncodeString E k = Ok kb \<and>
             mp_Marshal E (the (fmlookup m k)) = Ok vb \<and> p = kb @ vb) ks ps \<and>
           bs = hb @ concat ps))"

subsection \<open>Definitions survive the wire\<close>

fun wire_depth :: "schema_def \<Rightarrow> nat" where
  "wire_depth (STag t) = 1"
| "wire_depth (ArrayDef elem) = Suc (wire_depth elem)"
| "wire_depth (ObjectDef fs) = Suc (foldr (\<lambda>f n. max (case f of FieldDef k t \<Rightarrow> wire_depth t) n) fs 0)"
| "wire_depth SInvalid = 1"

text \<open>Counts and string lengths that a msgpack header can carry.\<close>

fun wire_fits :: "schema_def \<Rightarrow> bool" where
  "wire_fits (STag t) \<longleftrightarrow> length t < 2 ^ 32"
| "wire_fits (ArrayDef elem) \<longleftrightarrow> wire_fits elem"
| "wire_fits (ObjectDef fs) \<longleftrightarrow> length fs < 2 ^ 32 \<and>
     list_all (\<lambda>f. case f of FieldDef k t \<Rightarrow> length k < 2 ^ 32 \<and> wire_fits t) fs"
| "wire_fits SInvalid \<longleftrightarrow> False"

text \<open>A loop that appends a part per item, and a loop that reads such parts back.\<close>

lemma foldm_parts:
  assumes "\<And>x o1 o2. x \<in> set xs \<Longrightarrow> f x o1 = Ok o2 \<Longrightarrow> \<exists>p. o2 = o1 @ p \<and> Q x p"
    and "foldm f xs o1 = Ok o2"
  shows "\<exists>ps. list_all2 Q xs ps \<and> o2 = o1 @ concat ps"
  using assms
proof (induction xs arbitrary: o1)
  case Nil
  then show ?case by simp
next
  case (Cons x xs)
  from Cons.prems(2) obtain o3 where 1: "f x o1 = Ok o3" and 2: "foldm f xs o3 = Ok o2" by auto
  obtain p where p: "o3 = o1 @ p" "Q x p" using Cons.prems(1) [OF _ 1] by auto
  obtain ps where "list_all2 Q xs ps" "o2 = o3 @ concat ps"
    using Cons.IH [OF _ 2] Cons.prems(1) by auto
  with p show ?case by (intro exI [of _ "p # ps"]) simp
qed

lemma replm_parts:
  assumes "list_all2 (\<lambda>x p. \<forall>acc rest. step (acc, p @ rest) = Ok (g acc x, rest)) xs ps"
  shows "replm (length xs) step (acc, concat ps @ rest) = Ok (foldl g acc xs, rest)"
  using assms by (induction xs ps arbitrary: acc rule: list_all2_induct) simp_all

lemma foldl_snoc: "foldl (\<lambda>acc x. acc @ [x]) acc xs = acc @ xs"
  by (induction xs arbitrary: acc) simp_all

definition reads_back :: "externals \<Rightarrow> schema_def \<Rightarrow> byte list \<Rightarrow> bool" where
  "reads_back E def b \<longleftrightarrow>
     (\<forall>d rest. wire_depth def \<le> d \<longrightarrow> decodeSchemaDef E d (b @ rest) = Ok (def, rest))"

lemma reads_backI:
  "(\<And>d rest. wire_depth def \<le> Suc d \<Longrightarrow> decodeSchemaDef E (Suc d) (b @ rest) = Ok (def, rest)) \<Longrightarrow>
    0 < wire_depth def \<Longrightarrow> reads_back E def b"
  unfolding reads_back_def
proof (intro allI impI)
  fix d rest
  assume step: "\<And>d rest. wire_depth def \<le> Suc d \<Longrightarrow> decodeSchemaDef E (Suc d) (b @ rest) = Ok (def, rest)"
    and "0 < wire_depth def" and d: "wire_depth def \<le> d"
  then obtain d' where "d = Suc d'" by (cases d) auto
  with step [of d' rest] d show "decodeSchemaDef E d (b @ rest) = Ok (def, rest)" by simp
qed

lemma reads_backD:
  "reads_back E def b \<Longrightarrow> wire_depth def \<le> d \<Longrightarrow> decodeSchemaDef E d (b @ rest) = Ok (def, rest)"
  by (simp add: reads_back_def)

lemma wire_depth_field: "f \<in> set fs \<Longrightarrow> wire_depth (Type f) < wire_depth (ObjectDef fs)"
proof (induction fs)
  case (Cons g fs)
  then show ?case by (cases "f = g") (auto simp: field_case less_Suc_eq_le le_max_iff_disj)
qed simp

text \<open>The three shapes of a definition, given that the parts read back.\<close>

lemma decode_by_code:
  assumes "mp_PeekCode E dec = Ok c"
  shows "string_code E c \<Longrightarrow> decodeSchemaDef E (Suc d) dec =
      andThen (mp_DecodeString E dec) (\<lambda>(s, dec). Ok (STag s, dec))"
    and "\<not> string_code E c \<Longrightarrow> array_code E c \<Longrightarrow> decodeSchemaDef E (Suc d) dec =
      andThen (mp_DecodeArrayLen E dec) (\<lambda>(n, dec).
        if n \<noteq> 1 then Err InvalidArrayOnWire
        else andThen (decodeSchemaDef E d dec) (\<lambda>(elem, dec). Ok (ArrayDef elem, dec)))"
    and "\<not> string_code E c \<Longrightarrow> \<not> array_code E c \<Longrightarrow> map_code E c \<Longrightarrow> decodeSchemaDef E (Suc d) dec =
      andThen (mp_DecodeMapLen E dec) (\<lambda>(n, dec).
        if n < 0 then Panic MakeSliceRange
        else andThen (replm (nat n) (\<lambda>(fs, dec).
            andThen (mp_DecodeString E dec) (\<lambda>(key, dec).
            andThen (decodeSchemaDef E d dec) (\<lambda>(val, dec).
            Ok (fs @ [FieldDef key val], dec)))) ([], dec))
          (\<lambda>(fs, dec). Ok (ObjectDef fs, dec)))"
    and "\<not> string_code E c \<Longrightarrow> \<not> array_code E c \<Longrightarrow> \<not> map_code E c \<Longrightarrow>
      decodeSchemaDef E (Suc d) dec = Err (UnsupportedOnWire c)"
  by (simp_all add: assms)

lemma decode_no_code:
  "mp_PeekCode E dec = Err e \<Longrightarrow> decodeSchemaDef E (Suc d) dec = Err e"
  by simp

declare decodeSchemaDef.simps(2) [simp del]

lemma reads_back_tag:
  assumes "msgpack_tokens E" and "mp_EncodeString E t = Ok b" and "length t < 2 ^ 32"
  shows "reads_back E (STag t) b"
proof (rule reads_backI)
  fix d rest
  from msgpack_tokensD(1) [OF assms(1,3,2), of rest] obtain c
    where "mp_DecodeString E (b @ rest) = Ok (t, rest)"
      and c: "mp_PeekCode E (b @ rest) = Ok c" "string_code E c" by blast
  then show "decodeSchemaDef E (Suc d) (b @ rest) = Ok (STag t, rest)"
    using decode_by_code(1) [OF c] by simp
qed simp

lemma reads_back_array:
  assumes "msgpack_tokens E" and "mp_EncodeArrayLen E 1 = Ok b" and "reads_back E elem p"
  shows "reads_back E (ArrayDef elem) (b @ p)"
proof (rule reads_backI)
  fix d rest assume d: "wire_depth (ArrayDef elem) \<le> Suc d"
  have "decodeSchemaDef E d (p @ rest) = Ok (elem, rest)" using d by (intro reads_backD assms(3)) simp
  moreover from msgpack_tokensD(2) [OF assms(1) _ _ assms(2), of "p @ rest"] obtain c
    where "mp_DecodeArrayLen E (b @ p @ rest) = Ok (1, p @ rest)"
      and c: "mp_PeekCode E (b @ p @ rest) = Ok c" "\<not> string_code E c" "array_code E c" by auto
  ultimately show "decodeSchemaDef E (Suc d) ((b @ p) @ rest) = Ok (ArrayDef elem, rest)"
    using decode_by_code(2) [OF c] by simp
qed simp

lemma reads_back_object:
  assumes tok: "msgpack_tokens E" and hb: "mp_EncodeMapLen E (int (length fs)) = Ok hb"
    and len: "length fs < 2 ^ 32"
    and ps: "list_all2 (\<lambda>f p. \<exists>kb vb. mp_EncodeString E (Key f) = Ok kb \<and> length (Key f) < 2 ^ 32
      \<and> reads_back E (Type f) vb \<and> p = kb @ vb) fs ps"
  shows "reads_back E (ObjectDef fs) (hb @ concat ps)"
proof (rule reads_backI)
  fix d rest assume d: "wire_depth (ObjectDef fs) \<le> Suc d"
  let ?step = "\<lambda>(fs, dec). andThen (mp_DecodeString E dec) (\<lambda>(key, dec).
      andThen (decodeSchemaDef E d dec) (\<lambda>(val, dec). Ok (fs @ [FieldDef key val], dec)))"
  have "list_all2 (\<lambda>f p. \<forall>acc rest. ?step (acc, p @ rest) = Ok (acc @ [f], rest)) fs ps"
    using ps
  proof (rule list.rel_mono_strong, elim exE conjE, intro allI)
    fix f p kb vb acc and rest :: "byte list"
    assume f: "f \<in> set fs" and k: "mp_EncodeString E (Key f) = Ok kb" "length (Key f) < 2 ^ 32"
      and t: "reads_back E (Type f) vb" and p: "p = kb @ vb"
    have "wire_depth (Type f) \<le> d" using wire_depth_field [OF f] d by simp
    then have "decodeSchemaDef E d (vb @ rest) = Ok (Type f, rest)" by (rule reads_backD [OF t])
    moreover have "mp_DecodeString E (kb @ vb @ rest) = Ok (Key f, vb @ rest)"
      using msgpack_tokensD(1) [OF tok k(2,1)] by blast
    moreover have "FieldDef (Key f) (Type f) = f" by (cases f) simp
    ultimately show "?step (acc, p @ rest) = Ok (acc @ [f], rest)" by (simp add: p)
  qed
  from replm_parts [OF this, of "[]" rest]
  have "replm (length fs) ?step ([], concat ps @ rest) = Ok (fs, rest)" by (simp add: foldl_snoc)
  moreover from msgpack_tokensD(3) [OF tok _ _ hb, of "concat ps @ rest"] len obtain c
    where "mp_DecodeMapLen E (hb @ concat ps @ rest) = Ok (int (length fs), concat ps @ rest)"
      and c: "mp_PeekCode E (hb @ concat ps @ rest) = Ok c" "\<not> string_code E c"
        "\<not> array_code E c" "map_code E c" by auto
  ultimately show "decodeSchemaDef E (Suc d) ((hb @ concat ps) @ rest) = Ok (ObjectDef fs, rest)"
    using decode_by_code(3) [OF c] by simp
qed simp

lemma write_reads_back:
  "writeSchemaDef E def out = Ok bs \<Longrightarrow> msgpack_tokens E \<Longrightarrow> wire_fits def \<Longrightarrow>
    \<exists>b. bs = out @ b \<and> reads_back E def b"
proof (induction E def out arbitrary: bs rule: writeSchemaDef.induct)
  case (1 E t out)
  then show ?case by (auto intro!: reads_back_tag)
next
  case (2 E elem out)
  from "2.prems"(1) obtain hb where hb: "mp_EncodeArrayLen E 1 = Ok hb"
    and w: "writeSchemaDef E elem (out @ hb) = Ok bs" by auto
  from "2.IH" [OF hb w] "2.prems" obtain p where "bs = (out @ hb) @ p" "reads_back E elem p" by auto
  with hb "2.prems"(2) show ?case
    by (intro exI [of _ "hb @ p"]) (simp add: reads_back_array)
next
  case (3 E fs out)
  let ?Q = "\<lambda>f p. \<exists>kb vb. mp_EncodeString E (Key f) = Ok kb \<and> length (Key f) < 2 ^ 32
      \<and> reads_back E (Type f) vb \<and> p = kb @ vb"
  from "3.prems"(1) obtain hb where hb: "mp_EncodeMapLen E (int (length fs)) = Ok hb"
    and loop: "foldm (\<lambda>f out. andThen (mp_EncodeString E (Key f)) (\<lambda>b. writeSchemaDef E (Type f) (out @ b)))
      fs (out @ hb) = Ok bs"
    by (auto simp: field_case)
  have "\<exists>ps. list_all2 ?Q fs ps \<and> bs = (out @ hb) @ concat ps"
  proof (rule foldm_parts [OF _ loop])
    fix f o1 o2
    assume f: "f \<in> set fs"
      and w: "andThen (mp_EncodeString E (Key f)) (\<lambda>b. writeSchemaDef E (Type f) (o1 @ b)) = Ok o2"
    obtain k t where kt: "f = FieldDef k t" by (cases f)
    from w obtain kb where kb: "mp_EncodeString E k = Ok kb" "writeSchemaDef E t (o1 @ kb) = Ok o2"
      by (auto simp: kt)
    have fits: "length k < 2 ^ 32" "wire_fits t"
      using "3.prems"(3) f kt by (auto simp: list_all_iff)
    from "3.IH" [OF hb f kt kb(1) kb(2)] "3.prems"(2) fits
    obtain vb where "o2 = (o1 @ kb) @ vb" "reads_back E t vb" by auto
    with kb(1) fits(1) show "\<exists>p. o2 = o1 @ p \<and> ?Q f p"
      by (intro exI [of _ "kb @ vb"]) (simp add: kt)
  qed
  then obtain ps where "list_all2 ?Q fs ps" "bs = (out @ hb) @ concat ps" by blast
  with hb "3.prems" show ?case
    by (intro exI [of _ "hb @ concat ps"]) (simp add: reads_back_object)
next
  case (4 E out)
  then show ?case by simp
qed

subsection \<open>Tables survive the wire\<close>

lemma foldl_fmupd_table:
  assumes "\<forall>k \<in> set ks. fmlookup tbl k = Some (g k)"
  shows "fmlookup (foldl (\<lambda>m k. fmupd k (g k) m) m0 ks) k = (if k \<in> set ks then fmlookup tbl k else fmlookup m0 k)"
  using assms by (induction ks arbitrary: m0) auto

text \<open>
  A table whose values are marshalled through \<open>wr\<close> and read back by \<open>rd\<close> is read back, whatever
  order the map was written in.
\<close>

lemma decode_table_marshalled:
  assumes tok: "msgpack_tokens E" and maps: "msgpack_maps E"
    and bs: "mp_Marshal E (VMap (fmmap wr tbl)) = Ok bs"
    and card: "fcard (fmdom tbl) < 2 ^ 32" and keys: "\<And>k. k |\<in>| fmdom tbl \<Longrightarrow> length k < 2 ^ 32"
    and rd: "\<And>k x vb rest. fmlookup tbl k = Some x \<Longrightarrow> mp_Marshal E (wr x) = Ok vb \<Longrightarrow>
      rd (vb @ rest) = Ok (x, rest)"
  shows "decode_table E rd (bs @ rest) = Ok (tbl, rest)"
proof -
  let ?g = "\<lambda>k. the (fmlookup tbl k)"
  let ?step = "\<lambda>(out, dec). andThen (mp_DecodeString E dec) (\<lambda>(key, dec).
      andThen (rd dec) (\<lambda>(val, dec). Ok (fmupd key val out, dec)))"
  obtain ks hb ps where ks: "distinct ks" "set ks = fset (fmdom tbl)"
    and hb: "mp_EncodeMapLen E (int (length ks)) = Ok hb"
    and ps: "list_all2 (\<lambda>k p. \<exists>kb vb. mp_EncodeString E k = Ok kb \<and>
      mp_Marshal E (the (fmlookup (fmmap wr tbl) k)) = Ok vb \<and> p = kb @ vb) ks ps"
    and bs: "bs = hb @ concat ps"
    using maps bs unfolding msgpack_maps_def by fastforce
  have dom: "fmlookup tbl k = Some (?g k)" if "k \<in> set ks" for k
    using that ks(2) by (metis fmdomE option.sel)
  have "length ks = fcard (fmdom tbl)"
    using ks by (metis distinct_card fcard.rep_eq)
  with card have n: "int (length ks) < 2 ^ 32" by simp
  have "list_all2 (\<lambda>k p. \<forall>acc rest. ?step (acc, p @ rest) = Ok (fmupd k (?g k) acc, rest)) ks ps"
    using ps
  proof (rule list.rel_mono_strong, elim exE conjE, intro allI)
    fix k p kb vb acc and rest :: "byte list"
    assume k: "k \<in> set ks" and kb: "mp_EncodeString E k = Ok kb"
      and vb: "mp_Marshal E (the (fmlookup (fmmap wr tbl) k)) = Ok vb" and p: "p = kb @ vb"
    obtain x where x: "fmlookup tbl k = Some x" using dom [OF k] by blast
    with rd [OF x] vb have "rd (vb @ rest) = Ok (?g k, rest)" by simp
    moreover have "length k < 2 ^ 32" using keys k ks(2) by simp
    then have "mp_DecodeString E (kb @ vb @ rest) = Ok (k, vb @ rest)"
      using msgpack_tokensD(1) [OF tok _ kb] by blast
    ultimately show "?step (acc, p @ rest) = Ok (fmupd k (?g k) acc, rest)" by (simp add: p)
  qed
  from replm_parts [OF this, of fmempty rest]
  have "replm (length ks) ?step (fmempty, concat ps @ rest)
      = Ok (foldl (\<lambda>m k. fmupd k (?g k) m) fmempty ks, rest)" .
  moreover have "foldl (\<lambda>m k. fmupd k (?g k) m) fmempty ks = tbl"
  proof (rule fmap_ext)
    fix k
    have "fmlookup tbl k = None" if "k \<notin> set ks" using that ks(2) by (metis fmdom_notD)
    then show "fmlookup (foldl (\<lambda>m k. fmupd k (?g k) m) fmempty ks) k = fmlookup tbl k"
      using foldl_fmupd_table [of ks tbl ?g fmempty k] dom by auto
  qed
  moreover have "mp_DecodeMapLen E (hb @ concat ps @ rest) = Ok (int (length ks), concat ps @ rest)"
    using msgpack_tokensD(3) [OF tok _ n hb] by simp
  ultimately show ?thesis by (simp add: decode_table_def bs)
qed

text \<open>The exported form of one namespace's table, and of all of them, as the server builds them.\<close>

definition export_table :: "def_table \<Rightarrow> goval" where
  "export_table tbl = VMap (fmmap WireSchemaDef tbl)"

definition table_fits :: "nat \<Rightarrow> def_table \<Rightarrow> bool" where
  "table_fits depth tbl \<longleftrightarrow> fcard (fmdom tbl) < 2 ^ 32 \<and> (\<forall>k \<in> fset (fmdom tbl). length k < 2 ^ 32)
     \<and> (\<forall>d \<in> fset (fmran tbl). wire_fits d \<and> wire_depth d \<le> depth)"

lemma export_table_reads_back:
  assumes laws: "msgpack_tokens E" "msgpack_maps E"
    and fits: "table_fits depth tbl" and bs: "mp_Marshal E (export_table tbl) = Ok bs"
  shows "decodeSchemaDefMap E depth (bs @ rest) = Ok (tbl, rest)"
  unfolding decodeSchemaDefMap_def
proof (rule decode_table_marshalled [OF laws bs [unfolded export_table_def]])
  show "fcard (fmdom tbl) < 2 ^ 32" using fits by (simp add: table_fits_def)
  show "length k < 2 ^ 32" if "k |\<in>| fmdom tbl" for k using fits that by (simp add: table_fits_def)
  fix k x vb rest
  assume k: "fmlookup tbl k = Some x" and vb: "mp_Marshal E (WireSchemaDef x) = Ok vb"
  from k have x: "wire_fits x" "wire_depth x \<le> depth"
    using fits by (auto simp: table_fits_def dest: fmranI)
  from vb have "writeSchemaDef E x [] = Ok vb"
    using laws(2) by (simp add: msgpack_maps_def WireSchemaDef_def EncodeMsgpack_def)
  with write_reads_back laws(1) x(1) have "reads_back E x vb" by fastforce
  then show "decodeSchemaDef E depth (vb @ rest) = Ok (x, rest)" using x(2) by (rule reads_backD)
qed

subsection \<open>Enough depth\<close>

lemma consumesD: "consumes rd \<Longrightarrow> rd dec = Ok (v, dec') \<Longrightarrow> length dec' < length dec"
  by (simp add: consumes_def)

lemma consumes_no_panic: "consumes rd \<Longrightarrow> rd dec \<noteq> Panic p"
  by (auto simp: consumes_def no_panic_iff)

lemma replm_invariant:
  assumes "\<And>s. I s \<Longrightarrow> f s \<noteq> Panic p" and "\<And>s s'. I s \<Longrightarrow> f s = Ok s' \<Longrightarrow> I s'" and "I s"
  shows "replm n f s \<noteq> Panic p \<and> (\<forall>s'. replm n f s = Ok s' \<longrightarrow> I s')"
  using assms(3)
proof (induction n arbitrary: s)
  case 0
  then show ?case by simp
next
  case (Suc n)
  show ?case
  proof (cases "f s")
    case (Ok s')
    with Suc.IH [OF assms(2) [OF Suc.prems Ok]] show ?thesis by simp
  qed (use assms(1) [OF Suc.prems] in simp_all)
qed

text \<open>
  What is relied on of map headers: one that starts with a map code has a length, not the \<open>-1\<close> that
  \<open>DecodeMapLen\<close> gives for nil.
\<close>

definition msgpack_lengths :: "externals \<Rightarrow> bool" where
  "msgpack_lengths E \<longleftrightarrow> (\<forall>dec c n r. mp_PeekCode E dec = Ok c \<longrightarrow> map_code E c \<longrightarrow>
     mp_DecodeMapLen E dec = Ok (n, r) \<longrightarrow> 0 \<le> n)"

lemma msgpack_lengthsD:
  "msgpack_lengths E \<Longrightarrow> mp_PeekCode E dec = Ok c \<Longrightarrow> map_code E c \<Longrightarrow> mp_DecodeMapLen E dec = Ok (n, r) \<Longrightarrow> 0 \<le> n"
  by (auto simp: msgpack_lengths_def)

text \<open>
  With more stack than bytes, decoding returns, with a value or an error, and never leaves the input
  longer.
\<close>

lemma decodeSchemaDef_depth:
  assumes "msgpack_consumes E" and "msgpack_lengths E"
  shows "length dec < depth \<Longrightarrow> decodeSchemaDef E depth dec \<noteq> Panic p
    \<and> (\<forall>v dec'. decodeSchemaDef E depth dec = Ok (v, dec') \<longrightarrow> length dec' < length dec)"
proof (induction depth arbitrary: dec)
  case 0
  then show ?case by simp
next
  case (Suc d)
  have c: "consumes (mp_DecodeString E)" "consumes (mp_DecodeArrayLen E)" "consumes (mp_DecodeMapLen E)"
    and peek: "no_panic (mp_PeekCode E dec)"
    using assms(1) by (auto simp: msgpack_consumes_def)
  note len = consumesD [OF c(1)] consumesD [OF c(2)] consumesD [OF c(3)]
  note np = consumes_no_panic [OF c(1)] consumes_no_panic [OF c(2)] consumes_no_panic [OF c(3)]
  show ?case
  proof (cases "mp_PeekCode E dec")
    case (Ok code)
    consider "string_code E code" | "\<not> string_code E code" "array_code E code"
      | (map) "\<not> string_code E code" "\<not> array_code E code" "map_code E code"
      | "\<not> string_code E code" "\<not> array_code E code" "\<not> map_code E code" by blast
    then show ?thesis
    proof cases
      case 1
      then show ?thesis using decode_by_code(1) [OF Ok] by (auto simp: np dest: len)
    next
      case 2
      have "decodeSchemaDef E d r \<noteq> Panic p
          \<and> (\<forall>v dec'. decodeSchemaDef E d r = Ok (v, dec') \<longrightarrow> length dec' < length dec)"
        if "mp_DecodeArrayLen E dec = Ok (1, r)" for r
        using Suc.IH [of r] Suc.prems len(2) [OF that] by fastforce
      with 2 show ?thesis using decode_by_code(2) [OF Ok] by (auto simp: np split: if_splits)
    next
      case map
      let ?step = "\<lambda>(fs, dec). andThen (mp_DecodeString E dec) (\<lambda>(key, dec).
          andThen (decodeSchemaDef E d dec) (\<lambda>(val, dec). Ok (fs @ [FieldDef key val], dec)))"
      let ?I = "\<lambda>(fs :: field_def list, r). length r < length dec"
      have step: "?step (fs, r) \<noteq> Panic p \<and> (\<forall>s'. ?step (fs, r) = Ok s' \<longrightarrow> ?I s')"
        if r: "length r < length dec" for fs r
      proof (cases "mp_DecodeString E r")
        case (Ok kr)
        obtain k r1 where kr: "kr = (k, r1)" by (cases kr)
        have "length r1 < length r" using len(1) Ok kr by blast
        then show ?thesis using Ok kr r Suc.IH [of r1] Suc.prems by fastforce
      qed (auto simp: np)
      have loop: "replm n ?step (fs, r) \<noteq> Panic p
          \<and> (\<forall>s'. replm n ?step (fs, r) = Ok s' \<longrightarrow> ?I s')"
        if r: "length r < length dec" for n fs r
        using replm_invariant [of ?I ?step p "(fs, r)" n] step r by fastforce
      show ?thesis
      proof (cases "mp_DecodeMapLen E dec")
        case ok: (Ok nr)
        obtain n r where nr: "nr = (n, r)" by (cases nr)
        have "length r < length dec" using len(3) ok nr by blast
        moreover have "0 \<le> n" using msgpack_lengthsD [OF assms(2) Ok map(3)] ok nr by blast
        ultimately show ?thesis
          using loop [of r "nat n" "[]"] decode_by_code(3) [OF Ok map] ok nr by (auto split: if_splits)
      qed (use decode_by_code(3) [OF Ok map] np in auto)
    next
      case 4
      then show ?thesis using decode_by_code(4) [OF Ok] by simp
    qed
  next
    case (Err e)
    then show ?thesis by (simp add: decode_no_code)
  next
    case (Panic q)
    with peek show ?thesis by simp
  qed
qed

text \<open>A table whose values are read within the stack is read within it.\<close>

lemma decode_table_depth:
  assumes cons: "msgpack_consumes E"
    and rd: "\<And>dec. length dec \<le> n \<Longrightarrow> rd dec \<noteq> Panic p
      \<and> (\<forall>v dec'. rd dec = Ok (v, dec') \<longrightarrow> length dec' < length dec)"
    and len: "length dec \<le> n"
  shows "decode_table E rd dec \<noteq> Panic p
    \<and> (\<forall>v dec'. decode_table E rd dec = Ok (v, dec') \<longrightarrow> length dec' < length dec)"
proof -
  have c: "consumes (mp_DecodeString E)" "consumes (mp_DecodeMapLen E)"
    using cons by (auto simp: msgpack_consumes_def)
  let ?step = "\<lambda>(out, dec). andThen (mp_DecodeString E dec) (\<lambda>(key, dec).
      andThen (rd dec) (\<lambda>(val, dec). Ok (fmupd key val out, dec)))"
  let ?I = "\<lambda>(m :: (gostring, 'a) fmap, r). length r < length dec"
  have step: "?step s \<noteq> Panic p \<and> (\<forall>s'. ?step s = Ok s' \<longrightarrow> ?I s')" if "?I s" for s
  proof -
    obtain m r where s: "s = (m, r)" by (cases s)
    have r: "length r < length dec" using that s by simp
    show ?thesis
    proof (cases "mp_DecodeString E r")
      case (Ok kr)
      obtain k r1 where kr: "kr = (k, r1)" by (cases kr)
      have "length r1 < length r" using consumesD [OF c(1)] Ok kr by blast
      moreover from this have "length r1 \<le> n" using r len by simp
      note rd [OF this]
      ultimately show ?thesis using Ok kr r by (fastforce simp: s)
    qed (use consumes_no_panic [OF c(1)] in \<open>auto simp: s\<close>)
  qed
  show ?thesis
  proof (cases "mp_DecodeMapLen E dec")
    case (Ok kr)
    obtain k r where kr: "kr = (k, r)" by (cases kr)
    have "?I (fmempty, r)" using consumesD [OF c(2)] Ok kr by auto
    then have "replm (nat k) ?step (fmempty, r) \<noteq> Panic p
        \<and> (\<forall>s'. replm (nat k) ?step (fmempty, r) = Ok s' \<longrightarrow> ?I s')"
      using step by (intro replm_invariant) auto
    with Ok kr show ?thesis by (fastforce simp: decode_table_def)
  qed (use consumes_no_panic [OF c(2)] in \<open>auto simp: decode_table_def\<close>)
qed

end
