(* ===== verification/Middleware_Chain.thy ===== *)
theory Middleware_Chain
  imports Schema_Wire
begin

text \<open>
  What the server and the client share: function values as identifiers, effects as steps on a store,
  ranging over maps, building a frame and sending it, and the middleware chain, whose contract is the
  locale \<open>middleware_chain\<close>.
\<close>

subsection \<open>Steps\<close>

text \<open>
  A function value of the program is an identifier, whose meaning an environment gives. A middleware
  gets the continuation \<open>next\<close> and may call it any number of times.
\<close>

type_synonym fid = nat
type_synonym 's step = "'s \<Rightarrow> 's res"
type_synonym 's middleware = "(gerror option \<Rightarrow> 's step) \<Rightarrow> 's step"

text \<open>The calls the program makes on a \<open>*websocket.Conn\<close>.\<close>

datatype conn_call = WriteMessage "byte list" | CloseConn

text \<open>\<open>EventPacket\<close>, declared alike by both packages.\<close>

record event_packet =
  pk_Event :: gostring
  pk_Payload :: goval

text \<open>\<open>range\<close> over a map visits every key once.\<close>

definition ranges :: "('w \<Rightarrow> 'a fset \<Rightarrow> 'a list) \<Rightarrow> bool" where
  "ranges f \<longleftrightarrow> (\<forall>w S. set (f w S) = fset S \<and> distinct (f w S))"

subsection \<open>Frames\<close>

text \<open>The pattern \<open>buf, err := EncodeFrame(...); if err == nil { ... }\<close>.\<close>

definition if_encoded :: "byte list res \<Rightarrow> (byte list \<Rightarrow> 's step) \<Rightarrow> 's step" where
  "if_encoded r k w = (case r of Ok buf \<Rightarrow> k buf w | Err e \<Rightarrow> Ok w | Panic p \<Rightarrow> Panic p)"

lemma if_encoded_simps [simp]:
  "if_encoded (Ok buf) k w = k buf w" "if_encoded (Err e) k w = Ok w"
  "if_encoded (Panic p) k w = Panic p"
  by (simp_all add: if_encoded_def)

definition event_frame :: "byte \<Rightarrow> gostring \<Rightarrow> gostring \<Rightarrow> 32 word \<Rightarrow> goval \<Rightarrow> frame_options" where
  "event_frame ty nsp ev ack payload =
     \<lparr>fo_Type = ty, fo_Nsp = nsp, fo_Event = ev, fo_AckID = ack, fo_Payload = payload\<rparr>"

lemma encode_plain [simp]:
  "EncodeFrame E (event_frame ty nsp ev ack VNil) ser
    = Ok (header_bytes ty (nsp_or_root nsp) ev ack)"
  by (simp add: EncodeFrame_layout payload_bytes_def event_frame_def opts_header_def)

definition message_payload :: "gostring \<Rightarrow> goval" where
  "message_payload msg = VMap (fmap_of_list [(''message'', VString msg)])"

subsection \<open>Middleware chains\<close>

text \<open>
  The closure \<open>run(idx)\<close> that the connection chain, the socket's event chain and the client's event chain
  all contain: past the end the chain finishes, otherwise the middleware at \<open>idx\<close> is called with a
  \<open>next\<close> that rejects on an error and runs the rest without one.
\<close>

fun run_chain :: "('m \<Rightarrow> 's middleware) \<Rightarrow> 's step \<Rightarrow> (gerror \<Rightarrow> 's step) \<Rightarrow> 'm list \<Rightarrow> 's step" where
  "run_chain invoke finish reject [] s = finish s"
| "run_chain invoke finish reject (m # ms) s =
     invoke m (\<lambda>err s. case err of Some e \<Rightarrow> reject e s | None \<Rightarrow> run_chain invoke finish reject ms s) s"

text \<open>
  What a middleware does with \<open>next\<close>: it hands over exactly once, as its last action, in a state it
  reached by itself, or it returns without calling it.
\<close>

datatype 's verdict = Passes 's | Rejects gerror 's | Drops 's

definition behaves :: "'s middleware \<Rightarrow> 's \<Rightarrow> 's verdict \<Rightarrow> bool" where
  "behaves mw s v \<longleftrightarrow> (\<forall>next. mw next s =
     (case v of Passes s' \<Rightarrow> next None s' | Rejects e s' \<Rightarrow> next (Some e) s' | Drops s' \<Rightarrow> Ok s'))"

text \<open>What a chain of such middlewares comes to: the first verdict that is not a pass.\<close>

fun chain_verdict :: "('m \<Rightarrow> 's \<Rightarrow> 's verdict) \<Rightarrow> 'm list \<Rightarrow> 's \<Rightarrow> 's verdict" where
  "chain_verdict v [] s = Passes s"
| "chain_verdict v (m # ms) s = (case v m s of Passes s' \<Rightarrow> chain_verdict v ms s' | r \<Rightarrow> r)"

text \<open>
  The contract of a chain: the middlewares behave as \<open>v\<close> says. Its consequence is that the chain as a
  whole does what its first verdict says, and nothing twice.
\<close>

locale middleware_chain =
  fixes invoke :: "'m \<Rightarrow> 's middleware"
    and finish :: "'s step"
    and reject :: "gerror \<Rightarrow> 's step"
    and v :: "'m \<Rightarrow> 's \<Rightarrow> 's verdict"
  assumes behaves_v: "behaves (invoke m) s (v m s)"
begin

lemma run_verdict:
  "run_chain invoke finish reject ms s =
     (case chain_verdict v ms s of Passes s' \<Rightarrow> finish s' | Rejects e s' \<Rightarrow> reject e s' | Drops s' \<Rightarrow> Ok s')"
proof (induction ms arbitrary: s)
  case Nil
  then show ?case by simp
next
  case (Cons m ms)
  let ?next = "\<lambda>err s. case err of Some e \<Rightarrow> reject e s | None \<Rightarrow> run_chain invoke finish reject ms s"
  have 1: "invoke m ?next s = (case v m s of Passes s' \<Rightarrow> ?next None s' | Rejects e s' \<Rightarrow> ?next (Some e) s'
      | Drops s' \<Rightarrow> Ok s')"
    using behaves_v [of m s] unfolding behaves_def by blast
  show ?case
  proof (cases "v m s")
    case (Passes s')
    with 1 have "run_chain invoke finish reject (m # ms) s = run_chain invoke finish reject ms s'" by simp
    then show ?thesis using Passes Cons.IH [of s'] by simp
  qed (use 1 in simp_all)
qed

end

text \<open>An invariant that every middleware keeps as long as \<open>next\<close> does is kept by the chain.\<close>

definition keeps_step :: "('s \<Rightarrow> bool) \<Rightarrow> 's step \<Rightarrow> bool" where
  "keeps_step I f \<longleftrightarrow> (\<forall>s s'. I s \<longrightarrow> f s = Ok s' \<longrightarrow> I s')"

definition keeps_middleware :: "('s \<Rightarrow> bool) \<Rightarrow> 's middleware \<Rightarrow> bool" where
  "keeps_middleware I mw \<longleftrightarrow> (\<forall>next. (\<forall>e. keeps_step I (next e)) \<longrightarrow> keeps_step I (mw next))"

lemma keeps_stepD: "keeps_step I f \<Longrightarrow> I s \<Longrightarrow> f s = Ok s' \<Longrightarrow> I s'"
  by (auto simp: keeps_step_def)

lemma keeps_run_chain:
  assumes "\<And>m. m \<in> set ms \<Longrightarrow> keeps_middleware I (invoke m)" and "keeps_step I finish"
    and "\<And>e. keeps_step I (reject e)"
  shows "keeps_step I (run_chain invoke finish reject ms)"
  using assms
proof (induction ms)
  case Nil
  have "run_chain invoke finish reject [] = finish" by (rule ext) simp
  with Nil.prems(2) show ?case by (simp only:)
next
  case (Cons m ms)
  let ?next = "\<lambda>err s. case err of Some e \<Rightarrow> reject e s | None \<Rightarrow> run_chain invoke finish reject ms s"
  have "keeps_step I (?next err)" for err
    using Cons by (cases err) auto
  moreover have "run_chain invoke finish reject (m # ms) = invoke m ?next"
    by (rule ext) simp
  ultimately show ?case using Cons.prems(1) [of m] by (simp add: keeps_middleware_def)
qed

text \<open>The middleware that a verdict function describes; the contract holds of it.\<close>

definition of_verdict :: "('m \<Rightarrow> 's \<Rightarrow> 's verdict) \<Rightarrow> 'm \<Rightarrow> 's middleware" where
  "of_verdict v m next s =
     (case v m s of Passes s' \<Rightarrow> next None s' | Rejects e s' \<Rightarrow> next (Some e) s' | Drops s' \<Rightarrow> Ok s')"

lemma behaves_of_verdict: "behaves (of_verdict v m) s (v m s)"
  by (simp add: behaves_def of_verdict_def)

lemma behaves_unique: "(\<And>s. behaves mw s (v m s)) \<Longrightarrow> mw = of_verdict v m"
  by (rule ext)+ (simp add: behaves_def of_verdict_def)

interpretation verdict_chain: middleware_chain "of_verdict v" finish reject v for v finish reject
  by unfold_locales (rule behaves_of_verdict)

end
