(* ===== verification/Server_State.thy ===== *)
theory Server_State
  imports Middleware_Chain
begin

text \<open>
  The state of the server package (\<open>server/types.go\<close> and the structs of \<open>socket.go\<close>,
  \<open>namespace.go\<close>, \<open>hub.go\<close> and \<open>server.go\<close>) as one store, so that the pointers the
  structs share are explicit: \<open>*Socket\<close> and \<open>*connHub\<close> are addresses, and a \<open>*Namespace\<close> is the
  name it is stored under, since a namespace is never replaced or removed. User code, the order in
  which Go ranges over a map, and random numbers are parameters.

  What the program does to a \<open>*websocket.Conn\<close> is recorded as the list of its calls; the results of
  those calls are ignored by the code. Locks have no counterpart: each operation below is what a
  goroutine does between acquiring and releasing them.
\<close>

subsection \<open>Sockets, hubs and namespaces\<close>

type_synonym sid = nat
type_synonym hid = nat

record handshake =
  hs_Headers :: "(gostring \<times> gostring list) list"
  hs_URL :: gostring
  hs_Time :: int

record socket =
  so_ID :: gostring
  so_Nsp :: gostring
  so_Handshake :: handshake
  so_hub :: hid
  so_closed :: bool
  so_rooms :: "gostring fset"
  so_listeners :: "(gostring, fid) fmap"
  so_middlewares :: "fid list"

record hub =
  hb_handshake :: handshake
  hb_sockets :: "(gostring, sid) fmap"
  hb_calls :: "conn_call list"

record namespace =
  ns_Name :: gostring
  ns_sockets :: "sid fset"
  ns_middlewares :: "fid list"
  ns_connHandlers :: "fid list"
  ns_schemas :: "(gostring, schema) fmap"

record upgrader =
  up_ReadBufferSize :: int
  up_WriteBufferSize :: int

record world =
  sv_serializers :: serializers
  sv_useSchemas :: bool
  sv_allowedOrigins :: "gostring list"
  sv_namespaces :: "(gostring, namespace) fmap"
  sv_upgrader :: upgrader
  sv_httpServer :: "int option"
  sv_listening :: bool
  w_socket :: "sid \<Rightarrow> socket"
  w_sockets :: sid
  w_hub :: "hid \<Rightarrow> hub"
  w_hubs :: hid

text \<open>
  The HTTP server is the port it was made for; \<open>sv_listening\<close> says whether its listener is open. \<open>w_sockets\<close>
  and \<open>w_hubs\<close> are the next free addresses.
\<close>

subsection \<open>User code and other parameters\<close>

text \<open>
  A function value of the program is an identifier whose meaning the environment gives. A middleware
  gets the continuation \<open>next\<close> and may call it any number of times; an event handler gets the
  acknowledgement function, if there is one.
\<close>

record env =
  ev_ext :: externals
  ev_connMiddleware :: "fid \<Rightarrow> sid \<Rightarrow> world middleware"
  ev_connHandler :: "fid \<Rightarrow> sid \<Rightarrow> world step"
  ev_socketMiddleware :: "fid \<Rightarrow> (event_packet \<times> world) middleware"
  ev_eventHandler :: "fid \<Rightarrow> goval \<Rightarrow> (goval \<Rightarrow> world step) option \<Rightarrow> world step"
  ev_Error :: "gerror \<Rightarrow> gostring"
  ev_rangeSockets :: "world \<Rightarrow> sid fset \<Rightarrow> sid list"
  ev_rangeNames :: "world \<Rightarrow> gostring fset \<Rightarrow> gostring list"
  ev_randRead :: "world \<Rightarrow> byte list option"

definition env_ranges :: "env \<Rightarrow> bool" where
  "env_ranges V \<longleftrightarrow> ranges (ev_rangeSockets V) \<and> ranges (ev_rangeNames V)"

lemma env_rangesD [simp]:
  assumes "env_ranges V"
  shows "set (ev_rangeSockets V w S) = fset S" "distinct (ev_rangeSockets V w S)"
    "set (ev_rangeNames V w T) = fset T" "distinct (ev_rangeNames V w T)"
  using assms by (simp_all add: env_ranges_def ranges_def)

subsection \<open>Writing to the store\<close>

definition upd_socket :: "sid \<Rightarrow> (socket \<Rightarrow> socket) \<Rightarrow> world \<Rightarrow> world" where
  "upd_socket p f w = w\<lparr>w_socket := (w_socket w)(p := f (w_socket w p))\<rparr>"

definition upd_hub :: "hid \<Rightarrow> (hub \<Rightarrow> hub) \<Rightarrow> world \<Rightarrow> world" where
  "upd_hub h f w = w\<lparr>w_hub := (w_hub w)(h := f (w_hub w h))\<rparr>"

definition newNamespace :: "gostring \<Rightarrow> namespace" where
  "newNamespace name = \<lparr>ns_Name = name, ns_sockets = {||}, ns_middlewares = [], ns_connHandlers = [],
     ns_schemas = fmempty\<rparr>"

text \<open>The namespace behind a pointer; the pointers the code holds are to namespaces that exist.\<close>

definition ns_at :: "world \<Rightarrow> gostring \<Rightarrow> namespace" where
  "ns_at w nsp = (case fmlookup (sv_namespaces w) nsp of Some ns \<Rightarrow> ns | None \<Rightarrow> newNamespace nsp)"

definition upd_ns :: "gostring \<Rightarrow> (namespace \<Rightarrow> namespace) \<Rightarrow> world \<Rightarrow> world" where
  "upd_ns nsp f w = w\<lparr>sv_namespaces := fmupd nsp (f (ns_at w nsp)) (sv_namespaces w)\<rparr>"

lemma upd_socket_sel [simp]:
  "w_socket (upd_socket p f w) q = (if q = p then f (w_socket w p) else w_socket w q)"
  "w_hub (upd_socket p f w) = w_hub w" "sv_namespaces (upd_socket p f w) = sv_namespaces w"
  "sv_serializers (upd_socket p f w) = sv_serializers w" "sv_useSchemas (upd_socket p f w) = sv_useSchemas w"
  "w_sockets (upd_socket p f w) = w_sockets w" "w_hubs (upd_socket p f w) = w_hubs w"
  "ns_at (upd_socket p f w) = ns_at w" "sv_allowedOrigins (upd_socket p f w) = sv_allowedOrigins w"
  by (simp_all add: upd_socket_def ns_at_def fun_eq_iff)

lemma upd_hub_sel [simp]:
  "w_hub (upd_hub h f w) k = (if k = h then f (w_hub w h) else w_hub w k)"
  "w_socket (upd_hub h f w) = w_socket w" "sv_namespaces (upd_hub h f w) = sv_namespaces w"
  "sv_serializers (upd_hub h f w) = sv_serializers w" "sv_useSchemas (upd_hub h f w) = sv_useSchemas w"
  "w_sockets (upd_hub h f w) = w_sockets w" "w_hubs (upd_hub h f w) = w_hubs w"
  "ns_at (upd_hub h f w) = ns_at w" "sv_allowedOrigins (upd_hub h f w) = sv_allowedOrigins w"
  by (simp_all add: upd_hub_def ns_at_def fun_eq_iff)

lemma upd_ns_sel [simp]:
  "ns_at (upd_ns nsp f w) m = (if m = nsp then f (ns_at w nsp) else ns_at w m)"
  "fmlookup (sv_namespaces (upd_ns nsp f w)) m
    = (if m = nsp then Some (f (ns_at w nsp)) else fmlookup (sv_namespaces w) m)"
  "fmdom (sv_namespaces (upd_ns nsp f w)) = finsert nsp (fmdom (sv_namespaces w))"
  "w_socket (upd_ns nsp f w) = w_socket w" "w_hub (upd_ns nsp f w) = w_hub w"
  "sv_serializers (upd_ns nsp f w) = sv_serializers w" "sv_useSchemas (upd_ns nsp f w) = sv_useSchemas w"
  "w_sockets (upd_ns nsp f w) = w_sockets w" "w_hubs (upd_ns nsp f w) = w_hubs w"
  "sv_allowedOrigins (upd_ns nsp f w) = sv_allowedOrigins w"
  by (simp_all add: upd_ns_def ns_at_def)

subsection \<open>The set interface of rooms and namespaces\<close>

text \<open>
  Both \<open>Socket.rooms\<close> and \<open>Namespace.sockets\<close> are Go maps to the empty struct used as sets: the laws of
  insertion and deletion, and what a history of them leaves.
\<close>

datatype 'a set_op = SetAdd 'a | SetDelete 'a

primrec element :: "'a set_op \<Rightarrow> 'a" where
  "element (SetAdd x) = x"
| "element (SetDelete x) = x"

locale membership =
  fixes has :: "'s \<Rightarrow> 'a \<Rightarrow> bool"
    and add :: "'a \<Rightarrow> 's \<Rightarrow> 's"
    and delete :: "'a \<Rightarrow> 's \<Rightarrow> 's"
  assumes has_add: "has (add x s) y \<longleftrightarrow> y = x \<or> has s y"
    and has_delete: "has (delete x s) y \<longleftrightarrow> y \<noteq> x \<and> has s y"
begin

primrec apply_op :: "'a set_op \<Rightarrow> 's \<Rightarrow> 's" where
  "apply_op (SetAdd x) s = add x s"
| "apply_op (SetDelete x) s = delete x s"

text \<open>The last operation on an element decides; an element nothing was done to stays as it was.\<close>

lemma history:
  "has (fold apply_op ops s) x \<longleftrightarrow>
     (case filter (\<lambda>p. element p = x) (rev ops) of [] \<Rightarrow> has s x | p # ps \<Rightarrow> p = SetAdd x)"
proof (induction ops rule: rev_induct)
  case Nil
  then show ?case by simp
next
  case (snoc p ops)
  then show ?case by (cases p) (auto simp: has_add has_delete)
qed

lemma add_delete: "has (delete x (add x s)) y \<longleftrightarrow> y \<noteq> x \<and> has s y"
  by (auto simp: has_add has_delete)

lemma add_commute: "has (add x (add y s)) z \<longleftrightarrow> has (add y (add x s)) z"
  by (auto simp: has_add)

end

end
