(* ===== verification/Server_Namespace.thy ===== *)
theory Server_Namespace
  imports Server_State
begin

text \<open>
  The operations of \<open>server/socket.go\<close> that touch one socket, and all of \<open>server/namespace.go\<close>: sending,
  rooms, registration, emitting to a namespace or a room, and the connection middleware chain.
\<close>

subsection \<open>Sending\<close>

definition hub_send :: "hid \<Rightarrow> byte list \<Rightarrow> world \<Rightarrow> world" where
  "hub_send h buf w = upd_hub h (\<lambda>hb. hb\<lparr>hb_calls := hb_calls hb @ [WriteMessage buf]\<rparr>) w"

definition socket_send :: "sid \<Rightarrow> byte list \<Rightarrow> world \<Rightarrow> world" where
  "socket_send p buf w =
     (if so_closed (w_socket w p) then w else hub_send (so_hub (w_socket w p)) buf w)"

definition closeConn :: "sid \<Rightarrow> world \<Rightarrow> world" where
  "closeConn p w =
     upd_hub (so_hub (w_socket w p)) (\<lambda>hb. hb\<lparr>hb_calls := hb_calls hb @ [CloseConn]\<rparr>)
       (upd_socket p (\<lambda>s. s\<lparr>so_closed := True\<rparr>) w)"

subsection \<open>Sockets\<close>

text \<open>\<open>hex.EncodeToString\<close>\<close>

definition hex_digit :: "nat \<Rightarrow> char" where
  "hex_digit n = ''0123456789abcdef'' ! n"

definition hex_string :: "byte list \<Rightarrow> gostring" where
  "hex_string bs = concat (map (\<lambda>b. [hex_digit (unat b div 16), hex_digit (unat b mod 16)]) bs)"

definition generateSocketID :: "env \<Rightarrow> world \<Rightarrow> gostring" where
  "generateSocketID V w =
     hex_string (case ev_randRead V w of Some buf \<Rightarrow> buf | None \<Rightarrow> map word_of_nat [0..<12])"

definition newSocket :: "env \<Rightarrow> hid \<Rightarrow> gostring \<Rightarrow> handshake \<Rightarrow> world \<Rightarrow> sid \<times> world" where
  "newSocket V h nsp hs w =
     (let ident = generateSocketID V w; p = w_sockets w in
      (p, upd_socket p (\<lambda>_. \<lparr>so_ID = ident, so_Nsp = nsp, so_Handshake = hs, so_hub = h, so_closed = False,
             so_rooms = {|ident|}, so_listeners = fmempty, so_middlewares = []\<rparr>)
           (w\<lparr>w_sockets := Suc p\<rparr>)))"

definition socket_Use :: "sid \<Rightarrow> fid \<Rightarrow> world \<Rightarrow> world" where
  "socket_Use p mw = upd_socket p (\<lambda>s. s\<lparr>so_middlewares := so_middlewares s @ [mw]\<rparr>)"

definition socket_On :: "sid \<Rightarrow> gostring \<Rightarrow> fid \<Rightarrow> world \<Rightarrow> world" where
  "socket_On p event handler = upd_socket p (\<lambda>s. s\<lparr>so_listeners := fmupd event handler (so_listeners s)\<rparr>)"

definition socket_OnSchema :: "sid \<Rightarrow> schema \<Rightarrow> fid \<Rightarrow> world \<Rightarrow> world" where
  "socket_OnSchema p schema handler = socket_On p (sc_Name schema) handler"

definition join_room :: "gostring \<Rightarrow> socket \<Rightarrow> socket" where
  "join_room room s = s\<lparr>so_rooms := finsert room (so_rooms s)\<rparr>"

definition leave_room :: "gostring \<Rightarrow> socket \<Rightarrow> socket" where
  "leave_room room s = s\<lparr>so_rooms := so_rooms s |-| {|room|}\<rparr>"

definition in_room :: "socket \<Rightarrow> gostring \<Rightarrow> bool" where
  "in_room s room \<longleftrightarrow> room |\<in>| so_rooms s"

definition Join :: "sid \<Rightarrow> gostring \<Rightarrow> world \<Rightarrow> world" where
  "Join p room = upd_socket p (join_room room)"

definition Leave :: "sid \<Rightarrow> gostring \<Rightarrow> world \<Rightarrow> world" where
  "Leave p room = upd_socket p (leave_room room)"

definition HasRoom :: "sid \<Rightarrow> gostring \<Rightarrow> world \<Rightarrow> bool" where
  "HasRoom p room w = in_room (w_socket w p) room"

definition Rooms :: "env \<Rightarrow> sid \<Rightarrow> world \<Rightarrow> gostring list" where
  "Rooms V p w = ev_rangeNames V w (so_rooms (w_socket w p))"

interpretation socket_rooms: membership in_room join_room leave_room
  by unfold_locales (auto simp: in_room_def join_room_def leave_room_def)

subsection \<open>Namespaces\<close>

definition ns_Schema :: "gostring \<Rightarrow> schema list \<Rightarrow> world \<Rightarrow> world" where
  "ns_Schema nsp schemas =
     upd_ns nsp (\<lambda>ns. fold (\<lambda>s ns. ns\<lparr>ns_schemas := fmupd (sc_Name s) s (ns_schemas ns)\<rparr>) schemas ns)"

definition schemaFor :: "namespace \<Rightarrow> gostring \<Rightarrow> schema option" where
  "schemaFor ns event = fmlookup (ns_schemas ns) event"

definition exportSchemas :: "namespace \<Rightarrow> goval" where
  "exportSchemas ns = VMap (fmmap (\<lambda>schema. WireSchemaDef (sc_Definition schema)) (ns_schemas ns))"

definition ns_Use :: "gostring \<Rightarrow> fid \<Rightarrow> world \<Rightarrow> world" where
  "ns_Use nsp mw = upd_ns nsp (\<lambda>ns. ns\<lparr>ns_middlewares := ns_middlewares ns @ [mw]\<rparr>)"

definition ns_OnConnection :: "gostring \<Rightarrow> fid \<Rightarrow> world \<Rightarrow> world" where
  "ns_OnConnection nsp h = upd_ns nsp (\<lambda>ns. ns\<lparr>ns_connHandlers := ns_connHandlers ns @ [h]\<rparr>)"

definition fireConnection :: "env \<Rightarrow> gostring \<Rightarrow> sid \<Rightarrow> world step" where
  "fireConnection V nsp p w = foldm (\<lambda>h. ev_connHandler V h p) (ns_connHandlers (ns_at w nsp)) w"

definition add_member :: "sid \<Rightarrow> namespace \<Rightarrow> namespace" where
  "add_member p ns = ns\<lparr>ns_sockets := finsert p (ns_sockets ns)\<rparr>"

definition remove_member :: "sid \<Rightarrow> namespace \<Rightarrow> namespace" where
  "remove_member p ns = ns\<lparr>ns_sockets := ns_sockets ns |-| {|p|}\<rparr>"

definition is_member :: "namespace \<Rightarrow> sid \<Rightarrow> bool" where
  "is_member ns p \<longleftrightarrow> p |\<in>| ns_sockets ns"

definition addSocket :: "gostring \<Rightarrow> sid \<Rightarrow> world \<Rightarrow> world" where
  "addSocket nsp p = upd_ns nsp (add_member p)"

definition removeSocket :: "gostring \<Rightarrow> sid \<Rightarrow> world \<Rightarrow> world" where
  "removeSocket nsp p = upd_ns nsp (remove_member p)"

interpretation namespace_members: membership is_member add_member remove_member
  by unfold_locales (auto simp: is_member_def add_member_def remove_member_def)

definition serializersFor :: "env \<Rightarrow> world \<Rightarrow> gostring \<Rightarrow> gostring \<Rightarrow> serializers" where
  "serializersFor V w nsp event =
     (case schemaFor (ns_at w nsp) event of
        Some schema \<Rightarrow> \<lparr>EncodePayload = Some (schema_EncodePayload (ev_ext V) schema),
          DecodePayload = None, DecodePayloadWithEvent = None\<rparr>
      | None \<Rightarrow> sv_serializers w)"

definition emitExcluding :: "env \<Rightarrow> gostring \<Rightarrow> gostring \<Rightarrow> goval \<Rightarrow> sid option \<Rightarrow> world step" where
  "emitExcluding V nsp event payload exclude w =
     if_encoded (EncodeFrame (ev_ext V)
         (event_frame FrameEvent (ns_Name (ns_at w nsp)) event 0 payload) (Some (serializersFor V w nsp event)))
       (\<lambda>buf w. Ok (fold (\<lambda>s w. if Some s = exclude then w else socket_send s buf w)
          (ev_rangeSockets V w (ns_sockets (ns_at w nsp))) w)) w"

definition ns_Emit :: "env \<Rightarrow> gostring \<Rightarrow> gostring \<Rightarrow> goval \<Rightarrow> world step" where
  "ns_Emit V nsp event payload = emitExcluding V nsp event payload None"

definition toExcluding ::
  "env \<Rightarrow> gostring \<Rightarrow> gostring \<Rightarrow> gostring \<Rightarrow> goval \<Rightarrow> sid option \<Rightarrow> world step" where
  "toExcluding V nsp room event payload exclude w =
     if_encoded (EncodeFrame (ev_ext V)
         (event_frame FrameEvent (ns_Name (ns_at w nsp)) event 0 payload) (Some (serializersFor V w nsp event)))
       (\<lambda>buf w. Ok (fold (\<lambda>s w. if Some s = exclude then w
            else if HasRoom s room w then socket_send s buf w else w)
          (ev_rangeSockets V w (ns_sockets (ns_at w nsp))) w)) w"

text \<open>An \<open>*Emitter\<close> is its function, or a nil one; emitting through a nil one does nothing.\<close>

type_synonym emitter = "(gostring \<Rightarrow> goval \<Rightarrow> world step) option"

definition Emitter_Emit :: "emitter \<Rightarrow> gostring \<Rightarrow> goval \<Rightarrow> world step" where
  "Emitter_Emit e event payload w = (case e of None \<Rightarrow> Ok w | Some emit \<Rightarrow> emit event payload w)"

definition ns_To :: "env \<Rightarrow> gostring \<Rightarrow> gostring \<Rightarrow> emitter" where
  "ns_To V nsp room = Some (\<lambda>event payload. toExcluding V nsp room event payload None)"

subsection \<open>The connection middleware chain\<close>

definition reject_connection :: "env \<Rightarrow> gostring \<Rightarrow> sid \<Rightarrow> (bool \<Rightarrow> world step) \<Rightarrow> gerror \<Rightarrow> world step" where
  "reject_connection V nsp p done e w =
     andThen (if_encoded (EncodeFrame (ev_ext V)
         (event_frame FrameAck (ns_Name (ns_at w nsp)) ''error'' 0 (message_payload (ev_Error V e)))
         (Some (sv_serializers w)))
       (\<lambda>buf w. Ok (socket_send p buf w)) w)
     (\<lambda>w. done False (closeConn p w))"

definition runMiddlewares :: "env \<Rightarrow> gostring \<Rightarrow> sid \<Rightarrow> (bool \<Rightarrow> world step) \<Rightarrow> world step" where
  "runMiddlewares V nsp p done w =
     run_chain (\<lambda>m. ev_connMiddleware V m p) (done True) (reject_connection V nsp p done)
       (ns_middlewares (ns_at w nsp)) w"

lemma runMiddlewares_verdict:
  assumes "\<And>m w. behaves (ev_connMiddleware V m p) w (v m w)"
  shows "runMiddlewares V nsp p done w =
    (case chain_verdict v (ns_middlewares (ns_at w nsp)) w of
       Passes w' \<Rightarrow> done True w'
     | Rejects e w' \<Rightarrow> reject_connection V nsp p done e w'
     | Drops w' \<Rightarrow> Ok w')"
proof -
  have "(\<lambda>m. ev_connMiddleware V m p) = of_verdict v"
    using assms by (intro ext [of "\<lambda>m. ev_connMiddleware V m p"] behaves_unique)
  then show ?thesis by (simp add: runMiddlewares_def verdict_chain.run_verdict)
qed

subsection \<open>Delivery\<close>

text \<open>
  What an emit is meant to do, with no order in it: every open socket of a set gets the bytes, each
  once, on the connection it lives on.
\<close>

definition deliver :: "sid fset \<Rightarrow> byte list \<Rightarrow> world \<Rightarrow> world" where
  "deliver S buf w = w\<lparr>w_hub := (\<lambda>h. (w_hub w h)\<lparr>hb_calls := hb_calls (w_hub w h) @
     replicate (fcard (ffilter (\<lambda>p. \<not> so_closed (w_socket w p) \<and> so_hub (w_socket w p) = h) S))
       (WriteMessage buf)\<rparr>)\<rparr>"

lemma ffilter_none [simp]: "ffilter P {||} = {||}"
  by auto

lemma ffilter_finsert: "ffilter P (finsert x S) = (if P x then finsert x (ffilter P S) else ffilter P S)"
  by auto

lemma deliver_sel [simp]:
  "w_socket (deliver S buf w) = w_socket w" "sv_namespaces (deliver S buf w) = sv_namespaces w"
  "sv_serializers (deliver S buf w) = sv_serializers w" "sv_useSchemas (deliver S buf w) = sv_useSchemas w"
  "sv_allowedOrigins (deliver S buf w) = sv_allowedOrigins w"
  "w_sockets (deliver S buf w) = w_sockets w" "w_hubs (deliver S buf w) = w_hubs w"
  "ns_at (deliver S buf w) = ns_at w"
  "hb_sockets (w_hub (deliver S buf w) h) = hb_sockets (w_hub w h)"
  by (simp_all add: deliver_def ns_at_def fun_eq_iff)

lemma deliver_empty [simp]: "deliver {||} buf w = w"
  by (simp add: deliver_def fcard.rep_eq)

lemma deliver_finsert:
  assumes "p |\<notin>| S"
  shows "deliver S buf (socket_send p buf w) = deliver (finsert p S) buf w"
proof -
  let ?Q = "\<lambda>h q. \<not> so_closed (w_socket w q) \<and> so_hub (w_socket w q) = h"
  have "fcard (ffilter (?Q h) (finsert p S)) =
      (if ?Q h p then Suc (fcard (ffilter (?Q h) S)) else fcard (ffilter (?Q h) S))" for h
    using assms by (simp add: fcard_finsert_disjoint ffilter_finsert)
  then show ?thesis
    by (auto simp: deliver_def socket_send_def hub_send_def upd_hub_def fun_eq_iff
        replicate_app_Cons_same intro!: world.equality)
qed

lemma socket_send_sel [simp]:
  "w_socket (socket_send p buf w) = w_socket w" "sv_namespaces (socket_send p buf w) = sv_namespaces w"
  "ns_at (socket_send p buf w) = ns_at w" "w_sockets (socket_send p buf w) = w_sockets w"
  "w_hubs (socket_send p buf w) = w_hubs w" "sv_serializers (socket_send p buf w) = sv_serializers w"
  "hb_sockets (w_hub (socket_send p buf w) h) = hb_sockets (w_hub w h)"
  by (simp_all add: socket_send_def hub_send_def)

lemma fold_send_deliver:
  assumes "distinct ps"
  shows "fold (\<lambda>p w. if T (w_socket w) p then socket_send p buf w else w) ps w
    = deliver (ffilter (T (w_socket w)) (fset_of_list ps)) buf w"
  using assms
proof (induction ps arbitrary: w)
  case Nil
  then show ?case by simp
next
  case (Cons p ps)
  then have "p |\<notin>| ffilter (T (w_socket w)) (fset_of_list ps)"
    by (simp add: fset_of_list_elem)
  with Cons show ?case by (simp add: ffilter_finsert deliver_finsert)
qed

lemma range_fset:
  assumes "env_ranges V"
  shows "fset_of_list (ev_rangeSockets V w S) = S"
  using env_rangesD(1) [OF assms, of w S] by (metis fset_inject fset_of_list.rep_eq)

text \<open>Whatever order the set is ranged over, emitting is delivery to the members it selects.\<close>

lemma emitExcluding_deliver:
  assumes "env_ranges V"
  shows "emitExcluding V nsp event payload exclude w =
    if_encoded (EncodeFrame (ev_ext V)
        (event_frame FrameEvent (ns_Name (ns_at w nsp)) event 0 payload) (Some (serializersFor V w nsp event)))
      (\<lambda>buf w. Ok (deliver (ffilter (\<lambda>p. Some p \<noteq> exclude) (ns_sockets (ns_at w nsp))) buf w)) w"
proof -
  have "fold (\<lambda>s w. if Some s = exclude then w else socket_send s buf w)
        (ev_rangeSockets V w (ns_sockets (ns_at w nsp))) w
      = deliver (ffilter (\<lambda>p. Some p \<noteq> exclude) (ns_sockets (ns_at w nsp))) buf w" for buf
  proof -
    have "(\<lambda>s w. if Some s = exclude then w else socket_send s buf w)
        = (\<lambda>p w. if Some p \<noteq> exclude then socket_send p buf w else w)"
      by (auto simp: fun_eq_iff)
    then show ?thesis
      using fold_send_deliver [of "ev_rangeSockets V w (ns_sockets (ns_at w nsp))" "\<lambda>_ p. Some p \<noteq> exclude" buf w]
        assms by (simp add: range_fset)
  qed
  then show ?thesis by (simp add: emitExcluding_def if_encoded_def split: res.split)
qed

lemma toExcluding_deliver:
  assumes "env_ranges V"
  shows "toExcluding V nsp room event payload exclude w =
    if_encoded (EncodeFrame (ev_ext V)
        (event_frame FrameEvent (ns_Name (ns_at w nsp)) event 0 payload) (Some (serializersFor V w nsp event)))
      (\<lambda>buf w. Ok (deliver (ffilter (\<lambda>p. Some p \<noteq> exclude \<and> HasRoom p room w) (ns_sockets (ns_at w nsp))) buf w)) w"
proof -
  have "(\<lambda>s w. if Some s = exclude then w else if HasRoom s room w then socket_send s buf w else w)
      = (\<lambda>p w. if Some p \<noteq> exclude \<and> in_room (w_socket w p) room then socket_send p buf w else w)" for buf
    by (auto simp: fun_eq_iff HasRoom_def)
  then have "fold (\<lambda>s w. if Some s = exclude then w else if HasRoom s room w then socket_send s buf w else w)
        (ev_rangeSockets V w (ns_sockets (ns_at w nsp))) w
      = deliver (ffilter (\<lambda>p. Some p \<noteq> exclude \<and> HasRoom p room w) (ns_sockets (ns_at w nsp))) buf w" for buf
    using fold_send_deliver [of "ev_rangeSockets V w (ns_sockets (ns_at w nsp))"
        "\<lambda>sk p. Some p \<noteq> exclude \<and> in_room (sk p) room" buf w] assms
    by (simp add: range_fset HasRoom_def)
  then show ?thesis by (simp add: toExcluding_def if_encoded_def split: res.split)
qed

end
