(* ===== verification/Server_Hub.thy ===== *)
theory Server_Hub
  imports Server_Namespace
begin

text \<open>
  What a frame does on the server: the event side of \<open>server/socket.go\<close> (emitting, dispatch, the event
  middleware chain, acknowledgements) and all of \<open>server/hub.go\<close> (decoding by namespace, connecting to
  a namespace, closing).
\<close>

subsection \<open>Emitting from a socket\<close>

definition socket_Emit :: "env \<Rightarrow> sid \<Rightarrow> gostring \<Rightarrow> goval \<Rightarrow> world step" where
  "socket_Emit V p event payload w =
     (let s = w_socket w p;
          ser = (case fmlookup (sv_namespaces w) (so_Nsp s) of
              Some ns \<Rightarrow> serializersFor V w (so_Nsp s) event
            | None \<Rightarrow> sv_serializers w)
      in if_encoded (EncodeFrame (ev_ext V) (event_frame FrameEvent (so_Nsp s) event 0 payload) (Some ser))
           (\<lambda>buf w. Ok (socket_send p buf w)) w)"

definition EmitSchema :: "env \<Rightarrow> sid \<Rightarrow> schema \<Rightarrow> goval \<Rightarrow> world step" where
  "EmitSchema V p schema payload = socket_Emit V p (sc_Name schema) payload"

text \<open>The namespace is looked up when the emitter is made, not when it emits.\<close>

definition Broadcast :: "env \<Rightarrow> sid \<Rightarrow> world \<Rightarrow> emitter" where
  "Broadcast V p w =
     (let nsp = so_Nsp (w_socket w p); ns = fmlookup (sv_namespaces w) nsp in
      Some (\<lambda>event payload w. if ns \<noteq> None then emitExcluding V nsp event payload (Some p) w else Ok w))"

definition socket_To :: "env \<Rightarrow> sid \<Rightarrow> gostring \<Rightarrow> world \<Rightarrow> emitter" where
  "socket_To V p room w =
     (let nsp = so_Nsp (w_socket w p); ns = fmlookup (sv_namespaces w) nsp in
      Some (\<lambda>event payload w. if ns \<noteq> None then toExcluding V nsp room event payload (Some p) w else Ok w))"

subsection \<open>Events\<close>

text \<open>The acknowledgement function: always the server's own serializers.\<close>

definition ack_function :: "env \<Rightarrow> sid \<Rightarrow> gostring \<Rightarrow> 32 word \<Rightarrow> goval \<Rightarrow> world step" where
  "ack_function V p event ackID resp w =
     if_encoded (EncodeFrame (ev_ext V) (event_frame FrameAck (so_Nsp (w_socket w p)) event ackID resp)
         (Some (sv_serializers w)))
       (\<lambda>buf w. Ok (socket_send p buf w)) w"

definition invokeHandler :: "env \<Rightarrow> sid \<Rightarrow> event_packet \<Rightarrow> 32 word \<Rightarrow> world step" where
  "invokeHandler V p packet ackID w =
     (case fmlookup (so_listeners (w_socket w p)) (pk_Event packet) of
        None \<Rightarrow> Ok w
      | Some handler \<Rightarrow>
          ev_eventHandler V handler (pk_Payload packet)
            (if 0 < ackID then Some (ack_function V p (pk_Event packet) ackID) else None) w)"

text \<open>The chain runs on the packet, which a middleware may change, and the store.\<close>

definition with_packet :: "(event_packet \<Rightarrow> world step) \<Rightarrow> (event_packet \<times> world) step" where
  "with_packet f s = andThen (f (fst s) (snd s)) (\<lambda>w. Ok (fst s, w))"

definition reject_event :: "env \<Rightarrow> sid \<Rightarrow> 32 word \<Rightarrow> gerror \<Rightarrow> world step" where
  "reject_event V p ackID e w =
     (if 0 < ackID then
        if_encoded (EncodeFrame (ev_ext V)
            (event_frame FrameAck (so_Nsp (w_socket w p)) ''error'' ackID (message_payload (ev_Error V e)))
            (Some (sv_serializers w)))
          (\<lambda>buf w. Ok (socket_send p buf w)) w
      else Ok w)"

definition processEvent :: "env \<Rightarrow> sid \<Rightarrow> frame \<Rightarrow> world step" where
  "processEvent V p fr w =
     andThen (run_chain (ev_socketMiddleware V)
         (with_packet (\<lambda>packet. invokeHandler V p packet (fr_AckID fr)))
         (\<lambda>e. with_packet (\<lambda>packet. reject_event V p (fr_AckID fr) e))
         (so_middlewares (w_socket w p))
         (\<lparr>pk_Event = fr_Event fr, pk_Payload = fr_Payload fr\<rparr>, w))
       (\<lambda>(packet, w). Ok w)"

definition roomFromPayload :: "goval \<Rightarrow> gostring option" where
  "roomFromPayload payload =
     (case payload of
        VMap m \<Rightarrow> (case fmlookup m ''room'' of Some (VString room) \<Rightarrow> Some room | _ \<Rightarrow> None)
      | _ \<Rightarrow> None)"

definition dispatch :: "env \<Rightarrow> sid \<Rightarrow> frame \<Rightarrow> world step" where
  "dispatch V p fr w =
     (if fr_Nsp fr \<noteq> so_Nsp (w_socket w p) then Ok w
      else if fr_Type fr = FrameEvent then processEvent V p fr w
      else if fr_Type fr = FrameJoin then
        (case roomFromPayload (fr_Payload fr) of Some room \<Rightarrow> Ok (Join p room w) | None \<Rightarrow> Ok w)
      else if fr_Type fr = FrameLeave then
        (case roomFromPayload (fr_Payload fr) of Some room \<Rightarrow> Ok (Leave p room w) | None \<Rightarrow> Ok w)
      else if fr_Type fr = FramePing then
        if_encoded (EncodeFrame (ev_ext V) (event_frame FramePong (so_Nsp (w_socket w p)) [] 0 VNil)
            (Some (sv_serializers w)))
          (\<lambda>buf w. Ok (socket_send p buf w)) w
      else Ok w)"

subsection \<open>Connecting to a namespace\<close>

text \<open>
  The callback that \<open>handleNamespaceConnect\<close> and \<open>handleConnection\<close> give to the middleware chain: the
  two differ only in the schemas they send.
\<close>

definition register_socket :: "hid \<Rightarrow> gostring \<Rightarrow> sid \<Rightarrow> world \<Rightarrow> world" where
  "register_socket h nsp p w =
     upd_hub h (\<lambda>hb. hb\<lparr>hb_sockets := fmupd nsp p (hb_sockets hb)\<rparr>) (addSocket nsp p w)"

definition connected :: "env \<Rightarrow> hid \<Rightarrow> gostring \<Rightarrow> sid \<Rightarrow> (world \<Rightarrow> goval) \<Rightarrow> bool \<Rightarrow> world step" where
  "connected V h nsp p exported passed w =
     (if \<not> passed then Ok w
      else
        (let w = register_socket h nsp p w;
             connectPayload = (if sv_useSchemas w then exported w else VNil)
         in andThen (if_encoded (EncodeFrame (ev_ext V) (event_frame FrameConnect nsp [] 0 connectPayload)
                (Some (sv_serializers w)))
              (\<lambda>buf w. Ok (socket_send p buf w)) w)
            (fireConnection V nsp p)))"

definition missing_namespace :: "gostring \<Rightarrow> gostring" where
  "missing_namespace nsp = ''Requested namespace '' @ [CHR 0x27] @ nsp @ [CHR 0x27] @ '' does not exist on cluster.''"

definition handleNamespaceConnect :: "env \<Rightarrow> hid \<Rightarrow> gostring \<Rightarrow> world step" where
  "handleNamespaceConnect V h nsp w =
     (case fmlookup (sv_namespaces w) nsp of
        None \<Rightarrow>
          if_encoded (EncodeFrame (ev_ext V)
              (event_frame FrameAck nsp ''error'' 0 (message_payload (missing_namespace nsp)))
              (Some (sv_serializers w)))
            (\<lambda>buf w. Ok (hub_send h buf w)) w
      | Some ns \<Rightarrow>
          (let (p, w) = newSocket V h nsp (hb_handshake (w_hub w h)) w
           in runMiddlewares V nsp p (connected V h nsp p (\<lambda>w. exportSchemas (ns_at w nsp))) w))"

subsection \<open>The connection hub\<close>

definition newConnHub :: "handshake \<Rightarrow> world \<Rightarrow> hid \<times> world" where
  "newConnHub hs w =
     (let h = w_hubs w in
      (h, upd_hub h (\<lambda>_. \<lparr>hb_handshake = hs, hb_sockets = fmempty, hb_calls = []\<rparr>) (w\<lparr>w_hubs := Suc h\<rparr>)))"

text \<open>The serializers a frame is read with: its namespace's schema for the event, if there is one.\<close>

definition hub_decode :: "env \<Rightarrow> world \<Rightarrow> slice \<Rightarrow> gostring \<Rightarrow> gostring \<Rightarrow> goval res" where
  "hub_decode V w buf event nsp =
     (case fmlookup (sv_namespaces w) nsp of
        Some ns \<Rightarrow> (case schemaFor ns event of
            Some schema \<Rightarrow> schema_DecodePayload (ev_ext V) schema buf
          | None \<Rightarrow> call (DecodePayload (sv_serializers w)) buf)
      | None \<Rightarrow> call (DecodePayload (sv_serializers w)) buf)"

definition hub_serializers :: "env \<Rightarrow> world \<Rightarrow> serializers" where
  "hub_serializers V w =
     \<lparr>EncodePayload = None, DecodePayload = None, DecodePayloadWithEvent = Some (hub_decode V w)\<rparr>"

definition handleMessage :: "env \<Rightarrow> hid \<Rightarrow> slice \<Rightarrow> world step" where
  "handleMessage V h raw w =
     (case DecodeFrame (ev_ext V) raw (Some (hub_serializers V w)) of
        Err e \<Rightarrow> Ok w
      | Panic q \<Rightarrow> Panic q
      | Ok fr \<Rightarrow>
          if fr_Type fr = FrameConnect then
            (if fr_Nsp fr \<noteq> ''/'' then handleNamespaceConnect V h (fr_Nsp fr) w else Ok w)
          else (case fmlookup (hb_sockets (w_hub w h)) (fr_Nsp fr) of
              None \<Rightarrow> Ok w
            | Some p \<Rightarrow> dispatch V p fr w))"

definition handleClose :: "env \<Rightarrow> hid \<Rightarrow> world \<Rightarrow> world" where
  "handleClose V h w =
     (let socks = map (\<lambda>nsp. the (fmlookup (hb_sockets (w_hub w h)) nsp))
            (ev_rangeNames V w (fmdom (hb_sockets (w_hub w h))));
          w = upd_hub h (\<lambda>hb. hb\<lparr>hb_sockets := fmempty\<rparr>) w
      in fold (\<lambda>p w. if fmlookup (sv_namespaces w) (so_Nsp (w_socket w p)) \<noteq> None
             then removeSocket (so_Nsp (w_socket w p)) p w else w) socks w)"

text \<open>
  The read loop handles what \<open>ReadMessage\<close> returns, in order, until its first error; the deferred close
  runs then. A panic leaves the loop for good.
\<close>

definition readLoop :: "env \<Rightarrow> hid \<Rightarrow> slice list \<Rightarrow> world step" where
  "readLoop V h messages w =
     andThen (foldm (handleMessage V h) messages w) (\<lambda>w. Ok (handleClose V h w))"

end
