(* ===== verification/Server_Core.thy ===== *)
theory Server_Core
  imports Server_Hub
begin

text \<open>
  \<open>server/server.go\<close>: construction, namespaces, origin check, accepting a connection, the schema export.
  A request enters at \<open>httpHandler\<close>, with whether its upgrade to a websocket succeeds. Log lines are left
  out.
\<close>

record config =
  cfg_Port :: int
  cfg_Serializers :: "serializers option"
  cfg_UseSchemas :: "bool option"
  cfg_CORSOrigins :: "gostring list"
  cfg_ReadBufferSize :: int
  cfg_WriteBufferSize :: int

definition Of :: "gostring \<Rightarrow> world \<Rightarrow> world" where
  "Of name w =
     (case fmlookup (sv_namespaces w) name of
        Some ns \<Rightarrow> w
      | None \<Rightarrow> w\<lparr>sv_namespaces := fmupd name (newNamespace name) (sv_namespaces w)\<rparr>)"

text \<open>The store before anything is allocated in it.\<close>

definition blank_handshake :: handshake where
  "blank_handshake = \<lparr>hs_Headers = [], hs_URL = [], hs_Time = 0\<rparr>"

definition blank_socket :: socket where
  "blank_socket = \<lparr>so_ID = [], so_Nsp = [], so_Handshake = blank_handshake, so_hub = 0, so_closed = False,
     so_rooms = {||}, so_listeners = fmempty, so_middlewares = []\<rparr>"

definition blank_hub :: hub where
  "blank_hub = \<lparr>hb_handshake = blank_handshake, hb_sockets = fmempty, hb_calls = []\<rparr>"

text \<open>With a port, \<open>New\<close> listens; if that fails the server stays without a listener.\<close>

definition start_listener :: "externals \<Rightarrow> config \<Rightarrow> world \<Rightarrow> world" where
  "start_listener E cfg w =
     (if 0 < cfg_Port cfg then
        (let w = w\<lparr>sv_httpServer := Some (cfg_Port cfg)\<rparr> in
         case net_Listen E (cfg_Port cfg) of Some err \<Rightarrow> w | None \<Rightarrow> w\<lparr>sv_listening := True\<rparr>)
      else w)"

lemma start_listener_sel [simp]:
  "sv_serializers (start_listener E cfg w) = sv_serializers w" "sv_useSchemas (start_listener E cfg w) = sv_useSchemas w"
  "sv_allowedOrigins (start_listener E cfg w) = sv_allowedOrigins w"
  "sv_namespaces (start_listener E cfg w) = sv_namespaces w" "w_socket (start_listener E cfg w) = w_socket w"
  "w_sockets (start_listener E cfg w) = w_sockets w" "w_hub (start_listener E cfg w) = w_hub w"
  "w_hubs (start_listener E cfg w) = w_hubs w" "ns_at (start_listener E cfg w) = ns_at w"
  by (simp_all add: start_listener_def Let_def ns_at_def fun_eq_iff split: option.split)

definition New :: "externals \<Rightarrow> config \<Rightarrow> world" where
  "New E cfg = start_listener E cfg (Of ''/''
     \<lparr>sv_serializers = (case cfg_Serializers cfg of Some s \<Rightarrow> s | None \<Rightarrow> DefaultSerializers E),
      sv_useSchemas = (case cfg_UseSchemas cfg of Some b \<Rightarrow> b | None \<Rightarrow> True),
      sv_allowedOrigins = (if cfg_CORSOrigins cfg = [] then [''*''] else cfg_CORSOrigins cfg),
      sv_namespaces = fmempty,
      sv_upgrader = \<lparr>up_ReadBufferSize = (if cfg_ReadBufferSize cfg = 0 then 4096 else cfg_ReadBufferSize cfg),
        up_WriteBufferSize = (if cfg_WriteBufferSize cfg = 0 then 4096 else cfg_WriteBufferSize cfg)\<rparr>,
      sv_httpServer = None, sv_listening = False,
      w_socket = (\<lambda>_. blank_socket), w_sockets = 0, w_hub = (\<lambda>_. blank_hub), w_hubs = 0\<rparr>)"

fun origin_in :: "gostring list \<Rightarrow> gostring \<Rightarrow> bool" where
  "origin_in [] origin = False"
| "origin_in (a # as) origin = (if a = ''*'' \<or> a = origin then True else origin_in as origin)"

definition originAllowed :: "world \<Rightarrow> gostring \<Rightarrow> bool" where
  "originAllowed w origin = origin_in (sv_allowedOrigins w) origin"

definition server_Use :: "fid \<Rightarrow> world \<Rightarrow> world" where
  "server_Use mw w = ns_Use ''/'' mw (Of ''/'' w)"

definition server_OnConnection :: "fid \<Rightarrow> world \<Rightarrow> world" where
  "server_OnConnection h w = ns_OnConnection ''/'' h (Of ''/'' w)"

definition server_Emit :: "env \<Rightarrow> gostring \<Rightarrow> goval \<Rightarrow> world step" where
  "server_Emit V event payload w = ns_Emit V ''/'' event payload (Of ''/'' w)"

definition server_To :: "env \<Rightarrow> gostring \<Rightarrow> gostring list \<Rightarrow> world \<Rightarrow> emitter" where
  "server_To V room nsp w =
     (let name = (if 0 < length nsp \<and> nsp ! 0 \<noteq> [] then nsp ! 0 else ''/'') in
      case fmlookup (sv_namespaces w) name of None \<Rightarrow> None | Some ns \<Rightarrow> ns_To V name room)"

text \<open>\<open>strings.TrimPrefix(nsp, "/")\<close>\<close>

definition TrimPrefix :: "gostring \<Rightarrow> gostring \<Rightarrow> gostring" where
  "TrimPrefix s prefix = (if take (length prefix) s = prefix then drop (length prefix) s else s)"

definition schemaExportKey :: "gostring \<Rightarrow> gostring" where
  "schemaExportKey nsp = (if nsp = ''/'' then ''root'' else TrimPrefix nsp ''/'')"

text \<open>Both snapshots write one entry per namespace, in the order the map is ranged over.\<close>

definition export_by :: "env \<Rightarrow> (namespace \<Rightarrow> 'v) \<Rightarrow> world \<Rightarrow> (gostring, 'v) fmap" where
  "export_by V f w =
     fold (\<lambda>nsp out. fmupd (schemaExportKey nsp) (f (ns_at w nsp)) out)
       (ev_rangeNames V w (fmdom (sv_namespaces w))) fmempty"

definition Schemas :: "env \<Rightarrow> world \<Rightarrow> (gostring, (gostring, schema) fmap) fmap" where
  "Schemas V w = export_by V ns_schemas w"

definition exportAllSchemas :: "env \<Rightarrow> world \<Rightarrow> goval" where
  "exportAllSchemas V w = VMap (export_by V exportSchemas w)"

text \<open>
  \<open>handleConnection\<close> allocates the hub and the root socket and starts the middleware chain; the read
  loop runs beside it.
\<close>

definition open_connection :: "env \<Rightarrow> handshake \<Rightarrow> world \<Rightarrow> hid \<times> sid \<times> world" where
  "open_connection V hs w =
     (let (h, w) = newConnHub hs w; (p, w) = newSocket V h ''/'' hs w in (h, p, Of ''/'' w))"

definition handleConnection :: "env \<Rightarrow> handshake \<Rightarrow> world step" where
  "handleConnection V hs w =
     (let (h, p, w) = open_connection V hs w
      in runMiddlewares V ''/'' p (connected V h ''/'' p (exportAllSchemas V)) w)"

text \<open>
  \<open>Close\<close>: the error it returns, and the server. It ends the listener of a server that has one; accepted
  connections go on.
\<close>

definition server_Close :: "externals \<Rightarrow> world \<Rightarrow> gerror option \<times> world" where
  "server_Close E w =
     (if sv_httpServer w \<noteq> None then (http_Close E, w\<lparr>sv_listening := False\<rparr>) else (None, w))"

subsection \<open>Requests\<close>

text \<open>
  \<open>http.Header.Get\<close>: the first value under a canonical key, or the empty string. The upgrade answers the
  request itself; the handler's own answer is the refusal of an origin.
\<close>

definition header_Get :: "(gostring \<times> gostring list) list \<Rightarrow> gostring \<Rightarrow> gostring" where
  "header_Get hs key = (case map_of hs key of Some (v # vs) \<Rightarrow> v | _ \<Rightarrow> [])"

record http_request =
  rq_Header :: "(gostring \<times> gostring list) list"
  rq_URL :: gostring

datatype http_answer = HTTPError gostring nat

definition httpHandler :: "env \<Rightarrow> bool \<Rightarrow> int \<Rightarrow> http_request \<Rightarrow> world \<Rightarrow> (http_answer option \<times> world) res" where
  "httpHandler V upgraded now r w =
     (let origin = header_Get (rq_Header r) ''Origin'' in
      if \<not> originAllowed w origin then Ok (Some (HTTPError ''origin not allowed'' 403), w)
      else if \<not> upgraded then Ok (None, w)
      else andThen (handleConnection V \<lparr>hs_Headers = rq_Header r, hs_URL = rq_URL r, hs_Time = now\<rparr> w)
             (\<lambda>w. Ok (None, w)))"

end
