(* ===== verification/Client_State.thy ===== *)
theory Client_State
  imports Middleware_Chain
begin

text \<open>
  The state of the client package (\<open>client/types.go\<close>, the structs of \<open>client.go\<close> and \<open>namespace.go\<close>) and
  the operations on one namespace. A \<open>*Namespace\<close> is the name it is stored under; connections, tickers,
  channels and timers are numbered as they are made. What the program does to a connection is recorded
  as the list of its calls. A timer that \<open>time.AfterFunc\<close> started is pending until it is stopped or
  fires; a duration is its number of nanoseconds.
\<close>

subsection \<open>State\<close>

type_synonym conn = nat
type_synonym duration = int
type_synonym header = "(gostring \<times> gostring list) list"

record channel =
  cn_nsp :: gostring
  cn_listeners :: "(gostring, fid) fmap"
  cn_middlewares :: "fid list"

datatype timer = PongTimeout | Reconnect int duration

type_synonym schema_table = "(gostring, schema) fmap"

record client =
  cl_url :: gostring
  cl_serializers :: serializers
  cl_useSchemas :: bool
  cl_autoReconnect :: bool
  cl_reconnectAttempts :: int
  cl_maxAttempts :: int
  cl_baseDelay :: duration
  cl_maxDelay :: duration
  cl_pingInterval :: duration
  cl_pongTimeout :: duration
  cl_headers :: header
  cl_ackCallbacks :: "(32 word, fid) fmap"
  cl_ackCounter :: "32 word"
  cl_schemas :: "(gostring, schema_table) fmap"
  cl_flatSchemas :: schema_table
  cl_namespaces :: "(gostring, channel) fmap"
  cl_nsp :: gostring
  cl_conn :: "conn option"
  cl_calls :: "(conn \<times> conn_call) list"
  cl_pingTicker :: "nat option"
  cl_pongTimer :: "nat option"
  cl_stopHeartbeat :: "nat option"
  cl_tickers :: "nat list"
  cl_timers :: "(nat, timer) fmap"
  cl_closedChannels :: "nat list"
  cl_heartbeats :: "(nat \<times> nat) list"
  cl_closedByUser :: bool
  cl_fresh :: nat

text \<open>
  \<open>cl_tickers\<close> are the tickers that run, \<open>cl_heartbeats\<close> the heartbeat goroutines started so far, each
  with its stop channel and ticker, and \<open>cl_fresh\<close> is the next free number.
\<close>

record client_env =
  cv_ext :: externals
  cv_handler :: "fid \<Rightarrow> goval \<Rightarrow> client step"
  cv_ackCallback :: "fid \<Rightarrow> goval \<Rightarrow> client step"
  cv_middleware :: "fid \<Rightarrow> (event_packet \<times> client) middleware"
  cv_rangeNames :: "client \<Rightarrow> gostring fset \<Rightarrow> gostring list"
  cv_Dial :: "client \<Rightarrow> conn option"
  cv_WriteMessage :: "client \<Rightarrow> byte list \<Rightarrow> gerror option"
  cv_rand :: "client \<Rightarrow> rat"
  cv_stack :: nat

text \<open>
  \<open>cv_Dial\<close> is the connection a dial gives, to the client's address with its headers, if it succeeds; \<open>cv_WriteMessage\<close> the error of a write;
  \<open>cv_rand\<close> what \<open>rand.Float64\<close> returns; \<open>cv_stack\<close> the recursion depth the stack has room for.
\<close>

subsection \<open>Schema tables\<close>

definition schemaKey :: "gostring \<Rightarrow> gostring" where
  "schemaKey nsp =
     (if nsp = ''/'' then ''root''
      else if 0 < length nsp \<and> nsp ! 0 = CHR ''/'' then drop 1 nsp
      else nsp)"

text \<open>Indexing a missing table, which is a nil map, finds nothing.\<close>

definition table_of :: "(gostring, schema_table) fmap \<Rightarrow> gostring \<Rightarrow> schema_table" where
  "table_of schemas key = (case fmlookup schemas key of Some t \<Rightarrow> t | None \<Rightarrow> fmempty)"

definition with_bucket :: "gostring \<Rightarrow> client \<Rightarrow> client" where
  "with_bucket nspKey c =
     (if fmlookup (cl_schemas c) nspKey = None
      then c\<lparr>cl_schemas := fmupd nspKey fmempty (cl_schemas c)\<rparr> else c)"

definition ensureSchemaBucket :: "gostring \<Rightarrow> client \<Rightarrow> client" where
  "ensureSchemaBucket nspKey c = with_bucket nspKey c"

definition put_schema :: "gostring \<Rightarrow> gostring \<Rightarrow> schema \<Rightarrow> client \<Rightarrow> client" where
  "put_schema nspKey name s c =
     c\<lparr>cl_schemas := fmupd nspKey (fmupd name s (table_of (cl_schemas c) nspKey)) (cl_schemas c)\<rparr>"

definition registerSchemas :: "gostring \<Rightarrow> schema list \<Rightarrow> client \<Rightarrow> client" where
  "registerSchemas nsp schemas c =
     (let nspKey = schemaKey nsp in
      fold (\<lambda>s c. put_schema nspKey (sc_Name s) s c) schemas (with_bucket nspKey c))"

definition GetSchema :: "gostring \<Rightarrow> client \<Rightarrow> schema option" where
  "GetSchema eventName c = fmlookup (cl_flatSchemas c) eventName"

definition SchemasFor :: "gostring \<Rightarrow> client \<Rightarrow> schema_table" where
  "SchemasFor nsp c = table_of (cl_schemas c) (schemaKey nsp)"

definition schema_lookup :: "client \<Rightarrow> gostring \<Rightarrow> gostring \<Rightarrow> schema option" where
  "schema_lookup c nsp event = fmlookup (table_of (cl_schemas c) (schemaKey nsp)) event"

subsection \<open>One namespace\<close>

definition newChannel :: "gostring \<Rightarrow> channel" where
  "newChannel nsp = \<lparr>cn_nsp = nsp, cn_listeners = fmempty, cn_middlewares = []\<rparr>"

definition client_newNamespace :: "gostring \<Rightarrow> client \<Rightarrow> channel \<times> client" where
  "client_newNamespace nsp c = (newChannel nsp, ensureSchemaBucket (schemaKey nsp) c)"

definition channel_at :: "client \<Rightarrow> gostring \<Rightarrow> channel" where
  "channel_at c nsp = (case fmlookup (cl_namespaces c) nsp of Some n \<Rightarrow> n | None \<Rightarrow> newChannel nsp)"

definition upd_channel :: "gostring \<Rightarrow> (channel \<Rightarrow> channel) \<Rightarrow> client \<Rightarrow> client" where
  "upd_channel nsp f c = c\<lparr>cl_namespaces := fmupd nsp (f (channel_at c nsp)) (cl_namespaces c)\<rparr>"

definition channel_Schema :: "gostring \<Rightarrow> schema list \<Rightarrow> client \<Rightarrow> client" where
  "channel_Schema nsp schemas c = registerSchemas nsp schemas c"

definition channel_On :: "gostring \<Rightarrow> gostring \<Rightarrow> fid \<Rightarrow> client \<Rightarrow> client" where
  "channel_On nsp event h = upd_channel nsp (\<lambda>n. n\<lparr>cn_listeners := fmupd event h (cn_listeners n)\<rparr>)"

definition channel_OnSchema :: "gostring \<Rightarrow> schema \<Rightarrow> fid \<Rightarrow> client \<Rightarrow> client" where
  "channel_OnSchema nsp schema h = channel_On nsp (sc_Name schema) h"

definition channel_Use :: "gostring \<Rightarrow> fid \<Rightarrow> client \<Rightarrow> client" where
  "channel_Use nsp mw = upd_channel nsp (\<lambda>n. n\<lparr>cn_middlewares := cn_middlewares n @ [mw]\<rparr>)"

definition handler :: "client \<Rightarrow> gostring \<Rightarrow> gostring \<Rightarrow> fid option" where
  "handler c nsp event = fmlookup (cn_listeners (channel_at c nsp)) event"

definition call_handler :: "client_env \<Rightarrow> gostring \<Rightarrow> gostring \<Rightarrow> goval \<Rightarrow> client step" where
  "call_handler V nsp event data c =
     (case handler c nsp event of Some h \<Rightarrow> cv_handler V h data c | None \<Rightarrow> Ok c)"

definition triggerEvent :: "client_env \<Rightarrow> gostring \<Rightarrow> gostring \<Rightarrow> goval \<Rightarrow> client step" where
  "triggerEvent V nsp event data c =
     (let mws = cn_middlewares (channel_at c nsp) in
      if length mws = 0 then call_handler V nsp event data c
      else andThen (run_chain (cv_middleware V)
             (\<lambda>(packet, c). andThen (call_handler V nsp (pk_Event packet) (pk_Payload packet) c) (\<lambda>c. Ok (packet, c)))
             (\<lambda>e. Ok) mws (\<lparr>pk_Event = event, pk_Payload = data\<rparr>, c))
           (\<lambda>(packet, c). Ok c))"

subsection \<open>Sending\<close>

definition getNamespace :: "client \<Rightarrow> gostring \<Rightarrow> channel option" where
  "getNamespace c nsp = fmlookup (cl_namespaces c) nsp"

definition safeSend :: "client_env \<Rightarrow> byte list \<Rightarrow> client \<Rightarrow> gerror option \<times> client" where
  "safeSend V buf c =
     (case cl_conn c of
        None \<Rightarrow> (Some ConnectionClosed, c)
      | Some k \<Rightarrow> (cv_WriteMessage V c buf, c\<lparr>cl_calls := cl_calls c @ [(k, WriteMessage buf)]\<rparr>))"

text \<open>A send whose error is ignored or only logged.\<close>

definition send_frame :: "client_env \<Rightarrow> frame_options \<Rightarrow> serializers \<Rightarrow> client step" where
  "send_frame V opts ser c =
     if_encoded (EncodeFrame (cv_ext V) opts (Some ser)) (\<lambda>buf c. Ok (snd (safeSend V buf c))) c"

definition room_payload :: "gostring \<Rightarrow> goval" where
  "room_payload room = VMap (fmap_of_list [(''room'', VString room)])"

definition doJoin :: "client_env \<Rightarrow> gostring \<Rightarrow> gostring \<Rightarrow> client step" where
  "doJoin V room nsp c = send_frame V (event_frame FrameJoin nsp [] 0 (room_payload room)) (cl_serializers c) c"

definition doLeave :: "client_env \<Rightarrow> gostring \<Rightarrow> gostring \<Rightarrow> client step" where
  "doLeave V room nsp c = send_frame V (event_frame FrameLeave nsp [] 0 (room_payload room)) (cl_serializers c) c"

definition doEmit :: "client_env \<Rightarrow> gostring \<Rightarrow> goval \<Rightarrow> fid option \<Rightarrow> gostring \<Rightarrow> client step" where
  "doEmit V eventOrSchemaName payload cb targetNsp c =
     (let (ackID, c) = (case cb of
            None \<Rightarrow> (0, c)
          | Some k \<Rightarrow> (cl_ackCounter c,
              c\<lparr>cl_ackCallbacks := fmupd (cl_ackCounter c) k (cl_ackCallbacks c), cl_ackCounter := cl_ackCounter c + 1\<rparr>));
          ser = (case schema_lookup c targetNsp eventOrSchemaName of
              Some schema \<Rightarrow> \<lparr>EncodePayload = Some (schema_EncodePayload (cv_ext V) schema),
                DecodePayload = None, DecodePayloadWithEvent = None\<rparr>
            | None \<Rightarrow> cl_serializers c)
      in send_frame V (event_frame FrameEvent targetNsp eventOrSchemaName ackID payload) ser c)"

definition channel_Emit :: "client_env \<Rightarrow> gostring \<Rightarrow> gostring \<Rightarrow> goval \<Rightarrow> client step" where
  "channel_Emit V nsp event payload = doEmit V event payload None nsp"

definition channel_EmitAck :: "client_env \<Rightarrow> gostring \<Rightarrow> gostring \<Rightarrow> goval \<Rightarrow> fid option \<Rightarrow> client step" where
  "channel_EmitAck V nsp event payload cb = doEmit V event payload cb nsp"

definition channel_Join :: "client_env \<Rightarrow> gostring \<Rightarrow> gostring \<Rightarrow> client step" where
  "channel_Join V nsp room = doJoin V room nsp"

definition channel_Leave :: "client_env \<Rightarrow> gostring \<Rightarrow> gostring \<Rightarrow> client step" where
  "channel_Leave V nsp room = doLeave V room nsp"

definition client_Of :: "client_env \<Rightarrow> gostring \<Rightarrow> client step" where
  "client_Of V nsp c =
     (let ok = fmlookup (cl_namespaces c) nsp \<noteq> None;
          c = (if ok then c
               else (let (n, c) = client_newNamespace nsp c in c\<lparr>cl_namespaces := fmupd nsp n (cl_namespaces c)\<rparr>))
      in if \<not> ok \<and> nsp \<noteq> ''/'' \<and> cl_conn c \<noteq> None
         then send_frame V (event_frame FrameConnect nsp [] 0 VNil) (cl_serializers c) c
         else Ok c)"

text \<open>\<open>Close\<close> of the client closes the connection it has at that moment.\<close>

definition close_conn :: "client \<Rightarrow> client" where
  "close_conn c = (case cl_conn c of None \<Rightarrow> c | Some k \<Rightarrow> c\<lparr>cl_calls := cl_calls c @ [(k, CloseConn)]\<rparr>)"

definition client_Close :: "client \<Rightarrow> client" where
  "client_Close c = close_conn (c\<lparr>cl_closedByUser := True\<rparr>)"

definition channel_Close :: "gostring \<Rightarrow> client \<Rightarrow> client" where
  "channel_Close nsp c =
     (let c = upd_channel nsp (\<lambda>n. n\<lparr>cn_listeners := fmempty\<rparr>) c
      in if nsp = ''/'' then client_Close c else c)"

end
