(* ===== verification/Client_Core.thy ===== *)
theory Client_Core
  imports Client_State
begin

text \<open>
  \<open>client/client.go\<close>: construction, the messages a client handles, schema synchronisation, the heartbeat
  and its timers, and reconnection. Goroutines and timers are separate operations: the read loop's body
  is \<open>client_handleMessage\<close>, a tick of the heartbeat is \<open>heartbeat_tick\<close>, and \<open>timer_fires\<close> is what a pending
  timer runs. Log lines are left out.
\<close>

subsection \<open>Construction\<close>

record options =
  op_Nsp :: gostring
  op_Serializers :: "serializers option"
  op_UseSchemas :: "bool option"
  op_AutoReconnect :: "bool option"
  op_MaxAttempts :: int
  op_BaseDelay :: duration
  op_MaxDelay :: duration
  op_PingInterval :: duration
  op_PongTimeout :: duration
  op_Headers :: header

definition Second :: duration where
  "Second = 1000000000"

definition Millisecond :: duration where
  "Millisecond = 1000000"

definition positive_or :: "int \<Rightarrow> int \<Rightarrow> int" where
  "positive_or v d = (if 0 < v then v else d)"

definition client_New :: "externals \<Rightarrow> gostring \<Rightarrow> options \<Rightarrow> client" where
  "client_New E url opts =
     (let nsp = (if op_Nsp opts = [] then ''/'' else op_Nsp opts);
          c = \<lparr>cl_url = url, cl_serializers = (case op_Serializers opts of Some s \<Rightarrow> s | None \<Rightarrow> DefaultSerializers E),
            cl_useSchemas = (case op_UseSchemas opts of Some b \<Rightarrow> b | None \<Rightarrow> True),
            cl_autoReconnect = (case op_AutoReconnect opts of Some b \<Rightarrow> b | None \<Rightarrow> True),
            cl_reconnectAttempts = 0, cl_maxAttempts = positive_or (op_MaxAttempts opts) 15,
            cl_baseDelay = positive_or (op_BaseDelay opts) Second,
            cl_maxDelay = positive_or (op_MaxDelay opts) (7 * Second),
            cl_pingInterval = positive_or (op_PingInterval opts) (20 * Second),
            cl_pongTimeout = positive_or (op_PongTimeout opts) (8 * Second), cl_headers = op_Headers opts,
            cl_ackCallbacks = fmempty, cl_ackCounter = 1, cl_schemas = fmempty, cl_flatSchemas = fmempty,
            cl_namespaces = fmempty, cl_nsp = nsp, cl_conn = None, cl_calls = [],
            cl_pingTicker = None, cl_pongTimer = None, cl_stopHeartbeat = None, cl_tickers = [],
            cl_timers = fmempty, cl_closedChannels = [], cl_heartbeats = [], cl_closedByUser = False,
            cl_fresh = 0\<rparr>;
          (n, c) = client_newNamespace nsp c
      in c\<lparr>cl_namespaces := fmupd nsp n (cl_namespaces c)\<rparr>)"

text \<open>The methods of the client that stand for its root namespace's.\<close>

definition client_On :: "gostring \<Rightarrow> fid \<Rightarrow> client \<Rightarrow> client" where
  "client_On event h c = channel_On (cl_nsp c) event h c"

definition client_Emit :: "client_env \<Rightarrow> gostring \<Rightarrow> goval \<Rightarrow> client step" where
  "client_Emit V event payload c = channel_Emit V (cl_nsp c) event payload c"

definition client_EmitAck :: "client_env \<Rightarrow> gostring \<Rightarrow> goval \<Rightarrow> fid option \<Rightarrow> client step" where
  "client_EmitAck V event payload cb c = channel_EmitAck V (cl_nsp c) event payload cb c"

definition client_Join :: "client_env \<Rightarrow> gostring \<Rightarrow> client step" where
  "client_Join V room c = channel_Join V (cl_nsp c) room c"

definition client_Leave :: "client_env \<Rightarrow> gostring \<Rightarrow> client step" where
  "client_Leave V room c = channel_Leave V (cl_nsp c) room c"

definition client_Schema :: "schema list \<Rightarrow> client \<Rightarrow> client" where
  "client_Schema schemas c = channel_Schema (cl_nsp c) schemas c"

definition client_Use :: "fid \<Rightarrow> client \<Rightarrow> client" where
  "client_Use mw c = channel_Use (cl_nsp c) mw c"

subsection \<open>Timers, tickers and channels\<close>

definition AfterFunc :: "timer \<Rightarrow> client \<Rightarrow> nat \<times> client" where
  "AfterFunc t c =
     (cl_fresh c, c\<lparr>cl_timers := fmupd (cl_fresh c) t (cl_timers c), cl_fresh := Suc (cl_fresh c)\<rparr>)"

definition stop_timer :: "nat option \<Rightarrow> client \<Rightarrow> client" where
  "stop_timer t c = (case t of None \<Rightarrow> c | Some i \<Rightarrow> c\<lparr>cl_timers := fmdrop i (cl_timers c)\<rparr>)"

definition stop_ticker :: "nat option \<Rightarrow> client \<Rightarrow> client" where
  "stop_ticker t c = (case t of None \<Rightarrow> c | Some i \<Rightarrow> c\<lparr>cl_tickers := removeAll i (cl_tickers c)\<rparr>)"

definition close_channel :: "nat option \<Rightarrow> client step" where
  "close_channel ch c =
     (case ch of
        None \<Rightarrow> Ok c
      | Some i \<Rightarrow>
          if i \<in> set (cl_closedChannels c) then Panic CloseOfClosedChannel
          else Ok (c\<lparr>cl_closedChannels := i # cl_closedChannels c\<rparr>))"

subsection \<open>Heartbeat\<close>

definition setupHeartbeat :: "client step" where
  "setupHeartbeat c =
     andThen (close_channel (cl_stopHeartbeat c) (stop_ticker (cl_pingTicker c) c)) (\<lambda>c.
     let stop = cl_fresh c;
         c = c\<lparr>cl_stopHeartbeat := Some stop, cl_fresh := Suc stop\<rparr>
     in if cl_pingInterval c \<le> 0 then Panic NonPositiveTicker
        else (let ticker = cl_fresh c
              in Ok (c\<lparr>cl_pingTicker := Some ticker, cl_tickers := ticker # cl_tickers c,
                   cl_heartbeats := (stop, ticker) # cl_heartbeats c, cl_fresh := Suc ticker\<rparr>)))"

definition armPongTimeout :: "client \<Rightarrow> client" where
  "armPongTimeout c =
     (let (t, c) = AfterFunc PongTimeout (stop_timer (cl_pongTimer c) c) in c\<lparr>cl_pongTimer := Some t\<rparr>)"

definition clearPongTimeout :: "client \<Rightarrow> client" where
  "clearPongTimeout c =
     (if cl_pongTimer c \<noteq> None then (stop_timer (cl_pongTimer c) c)\<lparr>cl_pongTimer := None\<rparr> else c)"

definition cleanupHeartbeat :: "client step" where
  "cleanupHeartbeat c =
     andThen (close_channel (cl_stopHeartbeat c) ((stop_ticker (cl_pingTicker c) c)\<lparr>cl_pingTicker := None\<rparr>)) (\<lambda>c.
     Ok ((stop_timer (cl_pongTimer c) c)\<lparr>cl_stopHeartbeat := None, cl_pongTimer := None\<rparr>))"

text \<open>The heartbeat goroutine's case for a tick: the ping, and the timeout armed if it was sent.\<close>

definition heartbeat_tick :: "client_env \<Rightarrow> client step" where
  "heartbeat_tick V c =
     if_encoded (EncodeFrame (cv_ext V) (event_frame FramePing ''/'' [] 0 VNil) (Some (cl_serializers c)))
       (\<lambda>buf c. case safeSend V buf c of
            (Some e, c) \<Rightarrow> Ok c
          | (None, c) \<Rightarrow> Ok (armPongTimeout c)) c"

subsection \<open>Messages\<close>

definition decodeAppPayload :: "client_env \<Rightarrow> client \<Rightarrow> slice \<Rightarrow> gostring \<Rightarrow> gostring \<Rightarrow> goval res" where
  "decodeAppPayload V c payloadBytes event nsp =
     (if sl_len payloadBytes = 0 then Ok VNil
      else (case schema_lookup c nsp event of
          Some schema \<Rightarrow> schema_DecodePayload (cv_ext V) schema payloadBytes
        | None \<Rightarrow> call (DecodePayload (cl_serializers c)) payloadBytes))"

text \<open>One entry of a received table; a name that is not a schema name is skipped.\<close>

definition absorb_def :: "gostring \<Rightarrow> gostring \<Rightarrow> schema_def \<Rightarrow> client \<Rightarrow> client" where
  "absorb_def nspKey eventName def c =
     (case NewSchema eventName def of
        Ok s \<Rightarrow> (put_schema nspKey eventName s c)\<lparr>cl_flatSchemas := fmupd eventName s (cl_flatSchemas c)\<rparr>
      | _ \<Rightarrow> c)"

definition absorb_table :: "client_env \<Rightarrow> gostring \<Rightarrow> def_table \<Rightarrow> client \<Rightarrow> client" where
  "absorb_table V nspKey defs c =
     fold (\<lambda>eventName. absorb_def nspKey eventName (the (fmlookup defs eventName)))
       (cv_rangeNames V c (fmdom defs)) (with_bucket nspKey c)"

definition absorbSchemaPayload :: "client_env \<Rightarrow> gostring \<Rightarrow> slice \<Rightarrow> client step" where
  "absorbSchemaPayload V nsp payloadBytes c =
     (if nsp = ''/'' then
        (case DecodeRootSchemaPayload (cv_ext V) (cv_stack V) payloadBytes of
           Ok allDefs \<Rightarrow> Ok (fold (\<lambda>nspKey. absorb_table V nspKey (the (fmlookup allDefs nspKey)))
               (cv_rangeNames V c (fmdom allDefs)) c)
         | Err e \<Rightarrow> Ok c
         | Panic q \<Rightarrow> Panic q)
      else
        (case DecodeNamespaceSchemaPayload (cv_ext V) (cv_stack V) payloadBytes of
           Ok defs \<Rightarrow> Ok (absorb_table V (schemaKey nsp) defs c)
         | Err e \<Rightarrow> Ok c
         | Panic q \<Rightarrow> Panic q))"

definition client_handleMessage :: "client_env \<Rightarrow> slice \<Rightarrow> client step" where
  "client_handleMessage V raw c =
     (case DecodeFrameHeader raw of
        Err e \<Rightarrow> Ok c
      | Panic q \<Rightarrow> Panic q
      | Ok (hdr, payloadBytes) \<Rightarrow>
          if getNamespace c (fh_Nsp hdr) = None then Ok c
          else if fh_Type hdr = FrameConnect then
            andThen (if cl_useSchemas c \<and> 0 < sl_len payloadBytes
                     then absorbSchemaPayload V (fh_Nsp hdr) payloadBytes c else Ok c) (\<lambda>c.
            andThen (triggerEvent V (fh_Nsp hdr) ''connect'' VNil c) (\<lambda>c.
            if fh_Nsp hdr = cl_nsp c then setupHeartbeat c else Ok c))
          else if fh_Type hdr = FrameEvent then
            (case decodeAppPayload V c payloadBytes (fh_Event hdr) (fh_Nsp hdr) of
               Err e \<Rightarrow> Ok c
             | Panic q \<Rightarrow> Panic q
             | Ok payload \<Rightarrow> triggerEvent V (fh_Nsp hdr) (fh_Event hdr) payload c)
          else if fh_Type hdr = FrameAck then
            (case decodeAppPayload V c payloadBytes (fh_Event hdr) (fh_Nsp hdr) of
               Err e \<Rightarrow> Ok c
             | Panic q \<Rightarrow> Panic q
             | Ok payload \<Rightarrow>
                 (case fmlookup (cl_ackCallbacks c) (fh_AckID hdr) of
                    None \<Rightarrow> Ok c
                  | Some cb \<Rightarrow> cv_ackCallback V cb payload
                      (c\<lparr>cl_ackCallbacks := fmdrop (fh_AckID hdr) (cl_ackCallbacks c)\<rparr>)))
          else if fh_Type hdr = FramePong then Ok (clearPongTimeout c)
          else Ok c)"

subsection \<open>Connecting and reconnecting\<close>

text \<open>
  The delay in nanoseconds, with exact arithmetic where the code rounds to \<open>float64\<close>; the conversion to
  \<open>time.Duration\<close> truncates.
\<close>

definition backoff :: "duration \<Rightarrow> duration \<Rightarrow> nat \<Rightarrow> rat \<Rightarrow> duration" where
  "backoff base maxDelay attempt r =
     \<lfloor>min (of_int base * (3 / 2) ^ attempt + r * 300 * of_int Millisecond) (of_int maxDelay)\<rfloor>"

definition executeReconnectionSchedule :: "client_env \<Rightarrow> client \<Rightarrow> client" where
  "executeReconnectionSchedule V c =
     (let c = c\<lparr>cl_reconnectAttempts := cl_reconnectAttempts c + 1\<rparr>;
          attempt = cl_reconnectAttempts c;
          delay = backoff (cl_baseDelay c) (cl_maxDelay c) (nat attempt) (cv_rand V c)
      in snd (AfterFunc (Reconnect attempt delay) c))"

definition trigger_all :: "client_env \<Rightarrow> gostring \<Rightarrow> goval \<Rightarrow> client step" where
  "trigger_all V event data c =
     foldm (\<lambda>nsp. triggerEvent V nsp event data) (cv_rangeNames V c (fmdom (cl_namespaces c))) c"

definition client_handleClose :: "client_env \<Rightarrow> client step" where
  "client_handleClose V c =
     andThen (cleanupHeartbeat (c\<lparr>cl_conn := None\<rparr>)) (\<lambda>c.
     andThen (trigger_all V ''disconnect'' VNil c) (\<lambda>c.
     Ok (if \<not> cl_closedByUser c \<and> cl_autoReconnect c \<and> cl_reconnectAttempts c < cl_maxAttempts c
         then executeReconnectionSchedule V c else c)))"

definition connect :: "client_env \<Rightarrow> client step" where
  "connect V c =
     (case cv_Dial V c of
        None \<Rightarrow> client_handleClose V c
      | Some k \<Rightarrow>
          (let c = c\<lparr>cl_conn := Some k, cl_reconnectAttempts := 0\<rparr>;
               nsps = filter (\<lambda>nsp. nsp \<noteq> ''/'') (cv_rangeNames V c (fmdom (cl_namespaces c)))
           in foldm (\<lambda>nsp c. send_frame V (event_frame FrameConnect nsp [] 0 VNil) (cl_serializers c) c) nsps c))"

text \<open>
  A pending timer fires: a pong timeout closes the connection, a reconnection tells every namespace and
  dials. The timer is no longer pending while it runs.
\<close>

definition timer_fires :: "client_env \<Rightarrow> nat \<Rightarrow> client step" where
  "timer_fires V t c =
     (case fmlookup (cl_timers c) t of
        None \<Rightarrow> Ok c
      | Some PongTimeout \<Rightarrow> Ok (close_conn (c\<lparr>cl_timers := fmdrop t (cl_timers c)\<rparr>))
      | Some (Reconnect attempt delay) \<Rightarrow>
          andThen (trigger_all V ''reconnecting'' (VInt (word_of_int attempt)) (c\<lparr>cl_timers := fmdrop t (cl_timers c)\<rparr>))
            (connect V))"

text \<open>The read loop handles what a connection delivers, until it fails.\<close>

definition client_readLoop :: "client_env \<Rightarrow> slice list \<Rightarrow> client step" where
  "client_readLoop V messages c =
     andThen (foldm (client_handleMessage V) messages c) (client_handleClose V)"

end
