(* ===== verification/Client_Invariant.thy ===== *)
theory Client_Invariant
  imports Client_Core
begin

text \<open>
  The invariant of a client, that every operation keeps it, and the states a client reaches by its
  messages, heartbeats, timers, disconnections and user calls in any order.
\<close>

subsection \<open>The invariant\<close>

text \<open>The stop channel is open and was made by this client.\<close>

definition heartbeat_ok :: "client \<Rightarrow> bool" where
  "heartbeat_ok c \<longleftrightarrow> 0 < cl_pingInterval c \<and> (\<forall>ch \<in> set (cl_closedChannels c). ch < cl_fresh c)
     \<and> (\<forall>ch. cl_stopHeartbeat c = Some ch \<longrightarrow> ch < cl_fresh c \<and> ch \<notin> set (cl_closedChannels c))"

text \<open>Reconnection attempts are counted up to the limit, and never wait longer than the maximum.\<close>

definition attempts_ok :: "client \<Rightarrow> bool" where
  "attempts_ok c \<longleftrightarrow> 0 < cl_maxAttempts c \<and> 0 \<le> cl_reconnectAttempts c \<and> cl_reconnectAttempts c \<le> cl_maxAttempts c
     \<and> (\<forall>t n d. fmlookup (cl_timers c) t = Some (Reconnect n d) \<longrightarrow>
          1 \<le> n \<and> n \<le> cl_maxAttempts c \<and> d \<le> cl_maxDelay c)"

definition client_inv :: "client \<Rightarrow> bool" where
  "client_inv c \<longleftrightarrow> heartbeat_ok c \<and> attempts_ok c \<and> cl_nsp c |\<in>| fmdom (cl_namespaces c)"

lemmas client_inv_defs = client_inv_def heartbeat_ok_def attempts_ok_def

text \<open>The fields the invariant reads, and the serializers; an operation that leaves them alone keeps it.\<close>

definition same_core :: "client \<Rightarrow> client \<Rightarrow> bool" where
  "same_core c c' \<longleftrightarrow> cl_pingInterval c' = cl_pingInterval c \<and> cl_closedChannels c' = cl_closedChannels c
     \<and> cl_stopHeartbeat c' = cl_stopHeartbeat c \<and> cl_fresh c' = cl_fresh c \<and> cl_maxAttempts c' = cl_maxAttempts c
     \<and> cl_reconnectAttempts c' = cl_reconnectAttempts c \<and> cl_timers c' = cl_timers c \<and> cl_maxDelay c' = cl_maxDelay c
     \<and> cl_nsp c' = cl_nsp c \<and> cl_serializers c' = cl_serializers c
     \<and> fmdom (cl_namespaces c) |\<subseteq>| fmdom (cl_namespaces c')"

lemma same_core_inv: "client_inv c \<Longrightarrow> same_core c c' \<Longrightarrow> client_inv c'"
  by (auto simp: client_inv_defs same_core_def)

lemma same_core_refl [simp]: "same_core c c"
  by (simp add: same_core_def)

lemma same_core_trans: "same_core c c' \<Longrightarrow> same_core c' c'' \<Longrightarrow> same_core c c''"
  by (auto simp: same_core_def)

lemma same_core_fold:
  "(\<And>x c. same_core c (f x c)) \<Longrightarrow> same_core c (fold f xs c)"
  by (induction xs arbitrary: c) (auto intro: same_core_trans)

lemma same_core_keeps: "(\<And>c c'. f c = Ok c' \<Longrightarrow> same_core c c') \<Longrightarrow> keeps_step client_inv f"
  by (auto simp: keeps_step_def intro: same_core_inv)

subsection \<open>Schemas and sending\<close>

lemma with_bucket_core: "same_core c (with_bucket k c)"
  by (simp add: with_bucket_def same_core_def)

lemma put_schema_core: "same_core c (put_schema k n s c)"
  by (simp add: put_schema_def same_core_def)

lemma registerSchemas_core: "same_core c (registerSchemas nsp schemas c)"
  unfolding registerSchemas_def Let_def
  by (rule same_core_trans [OF with_bucket_core same_core_fold]) (rule put_schema_core)

lemma absorb_def_core: "same_core c (absorb_def k n d c)"
  by (auto simp: absorb_def_def put_schema_def same_core_def split: res.split)

lemma absorb_table_core: "same_core c (absorb_table V k defs c)"
  unfolding absorb_table_def
  by (rule same_core_trans [OF with_bucket_core same_core_fold]) (rule absorb_def_core)

lemma absorbSchemaPayload_core: "absorbSchemaPayload V nsp b c = Ok c' \<Longrightarrow> same_core c c'"
  by (auto simp: absorbSchemaPayload_def split: if_splits res.splits
      intro: absorb_table_core same_core_fold)

lemma send_frame_core: "send_frame V opts ser c = Ok c' \<Longrightarrow> same_core c c'"
  by (cases "EncodeFrame (cv_ext V) opts (Some ser)")
     (auto simp: send_frame_def safeSend_def same_core_def split: option.splits)

lemma doEmit_core: "doEmit V ev payload cb nsp c = Ok c' \<Longrightarrow> same_core c c'"
proof -
  assume "doEmit V ev payload cb nsp c = Ok c'"
  then obtain opts ser c1 where "send_frame V opts ser c1 = Ok c'" "same_core c c1"
    by (cases cb) (auto simp: doEmit_def Let_def same_core_def)
  then show ?thesis using send_frame_core same_core_trans by blast
qed

lemma upd_channel_core: "same_core c (upd_channel nsp f c)"
  by (auto simp: upd_channel_def same_core_def)

lemma close_conn_core: "same_core c (close_conn c)"
  by (simp add: close_conn_def same_core_def split: option.split)

lemma client_Close_core: "same_core c (client_Close c)"
  by (simp add: client_Close_def close_conn_def same_core_def split: option.split)

lemma client_Of_core: "client_Of V nsp c = Ok c' \<Longrightarrow> same_core c c'"
proof -
  assume ok: "client_Of V nsp c = Ok c'"
  have "same_core c (with_bucket (schemaKey nsp) c\<lparr>cl_namespaces := fmupd nsp n (cl_namespaces (with_bucket (schemaKey nsp) c))\<rparr>)" for n
    by (auto simp: with_bucket_def same_core_def)
  with ok show ?thesis
    by (auto simp: client_Of_def Let_def client_newNamespace_def ensureSchemaBucket_def
        split: if_splits dest!: send_frame_core intro: same_core_trans)
qed

lemma channel_Close_core: "same_core c (channel_Close nsp c)"
  by (auto simp: channel_Close_def Let_def
      intro: same_core_trans [OF upd_channel_core client_Close_core] upd_channel_core)

subsection \<open>Heartbeat\<close>

lemma setupHeartbeat_ok:
  assumes "client_inv c"
  shows "\<exists>c'. setupHeartbeat c = Ok c' \<and> client_inv c' \<and> cl_serializers c' = cl_serializers c"
proof -
  have "\<exists>c1. close_channel (cl_stopHeartbeat c) (stop_ticker (cl_pingTicker c) c) = Ok c1
      \<and> attempts_ok c1 \<and> cl_nsp c1 |\<in>| fmdom (cl_namespaces c1) \<and> 0 < cl_pingInterval c1 \<and> cl_serializers c1 = cl_serializers c
      \<and> (\<forall>ch \<in> set (cl_closedChannels c1). ch < cl_fresh c1)"
    using assms
    by (cases "cl_stopHeartbeat c"; cases "cl_pingTicker c")
       (simp_all add: close_channel_def stop_ticker_def client_inv_defs)
  then obtain c1 where 1: "close_channel (cl_stopHeartbeat c) (stop_ticker (cl_pingTicker c) c) = Ok c1"
    and c1: "attempts_ok c1" "cl_nsp c1 |\<in>| fmdom (cl_namespaces c1)" "0 < cl_pingInterval c1"
      "cl_serializers c1 = cl_serializers c"
      "\<And>ch. ch \<in> set (cl_closedChannels c1) \<Longrightarrow> ch < cl_fresh c1" by blast
  have "cl_fresh c1 \<notin> set (cl_closedChannels c1)" using c1(5) by blast
  then show ?thesis
    using 1 c1 by (simp add: setupHeartbeat_def Let_def client_inv_defs less_SucI)
qed

lemma cleanupHeartbeat_ok:
  assumes "client_inv c"
  shows "\<exists>c'. cleanupHeartbeat c = Ok c' \<and> client_inv c'"
  using assms
  by (auto simp: cleanupHeartbeat_def close_channel_def stop_ticker_def stop_timer_def client_inv_defs split: option.split)

lemma armPongTimeout_inv: "client_inv c \<Longrightarrow> client_inv (armPongTimeout c)"
  by (auto simp: armPongTimeout_def Let_def AfterFunc_def stop_timer_def client_inv_defs split: option.split if_splits)

lemma clearPongTimeout_inv: "client_inv c \<Longrightarrow> client_inv (clearPongTimeout c)"
  by (auto simp: clearPongTimeout_def stop_timer_def client_inv_defs split: option.split if_splits)

lemma heartbeat_tick_inv: "keeps_step client_inv (heartbeat_tick V)"
  unfolding keeps_step_def
proof (intro allI impI)
  fix c c' assume inv: "client_inv c" and ok: "heartbeat_tick V c = Ok c'"
  have sent: "client_inv (snd (safeSend V buf c))" for buf
    using inv by (auto simp: safeSend_def client_inv_defs split: option.split)
  show "client_inv c'"
  proof (cases "EncodeFrame (cv_ext V) (event_frame FramePing ''/'' [] 0 VNil) (Some (cl_serializers c))")
    case (Ok buf)
    with ok sent [of buf] armPongTimeout_inv [OF sent [of buf]] show ?thesis
      by (auto simp: heartbeat_tick_def split: prod.splits option.splits)
  qed (use ok inv in \<open>auto simp: heartbeat_tick_def\<close>)
qed

subsection \<open>User code\<close>

text \<open>
  The law of user code: what it keeps, given that \<open>next\<close> does; the operations above are what it can call.
  The invariant is one such property; another is that a client that was closed stays closed.
\<close>

definition client_env_keeps :: "(client \<Rightarrow> bool) \<Rightarrow> client_env \<Rightarrow> bool" where
  "client_env_keeps I V \<longleftrightarrow>
     (\<forall>h data. keeps_step I (cv_handler V h data)) \<and>
     (\<forall>cb data. keeps_step I (cv_ackCallback V cb data)) \<and>
     (\<forall>m. keeps_middleware (\<lambda>s. I (snd s)) (cv_middleware V m))"

definition client_lawful :: "client_env \<Rightarrow> bool" where
  "client_lawful V \<longleftrightarrow> client_env_keeps client_inv V"

lemma call_handler_keeps:
  assumes "client_env_keeps I V"
  shows "keeps_step I (call_handler V nsp event data)"
proof -
  have h: "keeps_step I (cv_handler V h data)" for h using assms by (simp add: client_env_keeps_def)
  show ?thesis
    unfolding keeps_step_def [of _ "call_handler V nsp event data"]
  proof (intro allI impI)
    fix c c' assume "I c" and "call_handler V nsp event data c = Ok c'"
    then show "I c'"
      using keeps_stepD [OF h] by (cases "handler c nsp event") (simp_all add: call_handler_def)
  qed
qed

lemma triggerEvent_keeps:
  assumes "client_env_keeps I V"
  shows "keeps_step I (triggerEvent V nsp event data)"
  unfolding keeps_step_def
proof (intro allI impI)
  fix c c' assume inv: "I c" and ok: "triggerEvent V nsp event data c = Ok c'"
  let ?finish = "\<lambda>(packet, c). andThen (call_handler V nsp (pk_Event packet) (pk_Payload packet) c) (\<lambda>c. Ok (packet, c))"
  show "I c'"
  proof (cases "cn_middlewares (channel_at c nsp) = []")
    case True
    with ok inv keeps_stepD [OF call_handler_keeps [OF assms]] show ?thesis
      by (simp add: triggerEvent_def)
  next
    case False
    with ok obtain packet where run: "run_chain (cv_middleware V) ?finish (\<lambda>e. Ok)
        (cn_middlewares (channel_at c nsp)) (\<lparr>pk_Event = event, pk_Payload = data\<rparr>, c) = Ok (packet, c')"
      by (auto simp: triggerEvent_def)
    have "keeps_step (\<lambda>s. I (snd s)) ?finish"
      using keeps_stepD [OF call_handler_keeps [OF assms]] by (auto simp: keeps_step_def)
    then have "keeps_step (\<lambda>s. I (snd s)) (run_chain (cv_middleware V) ?finish (\<lambda>e. Ok)
        (cn_middlewares (channel_at c nsp)))"
      using assms by (intro keeps_run_chain) (auto simp: client_env_keeps_def keeps_step_def [of _ Ok])
    from keeps_stepD [OF this _ run] inv show ?thesis by simp
  qed
qed

lemma triggerEvent_inv: "client_lawful V \<Longrightarrow> keeps_step client_inv (triggerEvent V nsp event data)"
  unfolding client_lawful_def by (rule triggerEvent_keeps)

lemma foldm_keeps:
  assumes "\<And>x. keeps_step I (f x)"
  shows "keeps_step I (foldm f xs)"
  unfolding keeps_step_def
proof (intro allI impI)
  fix s s' show "I s \<Longrightarrow> foldm f xs s = Ok s' \<Longrightarrow> I s'"
  proof (induction xs arbitrary: s)
    case (Cons x xs)
    then obtain s1 where "f x s = Ok s1" "foldm f xs s1 = Ok s'" by auto
    with Cons keeps_stepD [OF assms] show ?case by blast
  qed simp
qed

lemma trigger_all_inv: "client_lawful V \<Longrightarrow> keeps_step client_inv (trigger_all V event data)"
  using keeps_stepD [OF foldm_keeps [OF triggerEvent_inv]]
  by (auto simp: keeps_step_def trigger_all_def)

subsection \<open>Reconnecting\<close>

lemma backoff_bounded: "backoff base maxDelay n r \<le> maxDelay"
  by (simp add: backoff_def floor_le_iff min_def)

lemma executeReconnectionSchedule_inv:
  "client_inv c \<Longrightarrow> cl_reconnectAttempts c < cl_maxAttempts c \<Longrightarrow> client_inv (executeReconnectionSchedule V c)"
  by (auto simp: executeReconnectionSchedule_def Let_def AfterFunc_def client_inv_defs backoff_bounded split: if_splits)

lemma client_handleClose_inv:
  assumes "client_lawful V"
  shows "keeps_step client_inv (client_handleClose V)"
  unfolding keeps_step_def
proof (intro allI impI)
  fix c c' assume inv: "client_inv c" and ok: "client_handleClose V c = Ok c'"
  then obtain c1 c2 where 1: "cleanupHeartbeat (c\<lparr>cl_conn := None\<rparr>) = Ok c1"
    and 2: "trigger_all V ''disconnect'' VNil c1 = Ok c2"
    and c': "c' = (if \<not> cl_closedByUser c2 \<and> cl_autoReconnect c2 \<and> cl_reconnectAttempts c2 < cl_maxAttempts c2
         then executeReconnectionSchedule V c2 else c2)"
    by (auto simp: client_handleClose_def)
  have "client_inv (c\<lparr>cl_conn := None\<rparr>)" using inv by (simp add: client_inv_defs)
  with cleanupHeartbeat_ok 1 have "client_inv c1" by fastforce
  with 2 have "client_inv c2" by (rule keeps_stepD [OF trigger_all_inv [OF assms], rotated])
  with c' show "client_inv c'" by (simp add: executeReconnectionSchedule_inv)
qed

lemma connect_inv:
  assumes "client_lawful V"
  shows "keeps_step client_inv (connect V)"
  unfolding keeps_step_def
proof (intro allI impI)
  fix c c' assume inv: "client_inv c" and ok: "connect V c = Ok c'"
  show "client_inv c'"
  proof (cases "cv_Dial V c")
    case None
    with ok inv keeps_stepD [OF client_handleClose_inv [OF assms]] show ?thesis by (simp add: connect_def)
  next
    case (Some k)
    let ?c = "c\<lparr>cl_conn := Some k, cl_reconnectAttempts := 0\<rparr>"
    have "client_inv ?c" using inv by (auto simp: client_inv_defs)
    moreover have "keeps_step client_inv (\<lambda>c. send_frame V (event_frame FrameConnect nsp [] 0 VNil) (cl_serializers c) c)" for nsp
      by (rule same_core_keeps) (rule send_frame_core)
    ultimately show ?thesis
      using ok Some keeps_stepD [OF foldm_keeps] by (fastforce simp: connect_def Let_def)
  qed
qed

lemma timer_fires_inv:
  assumes "client_lawful V"
  shows "keeps_step client_inv (timer_fires V t)"
  unfolding keeps_step_def
proof (intro allI impI)
  fix c c' assume inv: "client_inv c" and ok: "timer_fires V t c = Ok c'"
  have drop: "client_inv (c\<lparr>cl_timers := fmdrop t (cl_timers c)\<rparr>)"
    using inv by (auto simp: client_inv_defs split: if_splits)
  show "client_inv c'"
  proof (cases "fmlookup (cl_timers c) t")
    case None
    with ok inv show ?thesis by (simp add: timer_fires_def)
  next
    case (Some x)
    show ?thesis
    proof (cases x)
      case PongTimeout
      with Some ok drop show ?thesis
        by (auto simp: timer_fires_def intro: same_core_inv close_conn_core)
    next
      case (Reconnect attempt delay)
      with Some ok obtain c1 where 1: "trigger_all V ''reconnecting'' (VInt (word_of_int attempt))
            (c\<lparr>cl_timers := fmdrop t (cl_timers c)\<rparr>) = Ok c1" and 2: "connect V c1 = Ok c'"
        by (auto simp: timer_fires_def)
      from keeps_stepD [OF trigger_all_inv [OF assms] drop 1] 2 show ?thesis
        by (rule keeps_stepD [OF connect_inv [OF assms]])
    qed
  qed
qed

lemma client_handleMessage_inv:
  assumes "client_lawful V"
  shows "keeps_step client_inv (client_handleMessage V raw)"
  unfolding keeps_step_def
proof (intro allI impI)
  fix c c' assume inv: "client_inv c" and ok: "client_handleMessage V raw c = Ok c'"
  note trig = keeps_stepD [OF triggerEvent_inv [OF assms]]
  have drop: "client_inv (c\<lparr>cl_ackCallbacks := m\<rparr>)" for m using inv by (simp add: client_inv_defs)
  have cb: "client_inv c''" if "cv_ackCallback V f d (c\<lparr>cl_ackCallbacks := m\<rparr>) = Ok c''" for f d m c''
  proof (rule keeps_stepD [of client_inv "cv_ackCallback V f d", OF _ _ that])
    show "keeps_step client_inv (cv_ackCallback V f d)" using assms by (simp add: client_lawful_def client_env_keeps_def)
  qed (rule drop)
  show "client_inv c'"
  proof (cases "DecodeFrameHeader raw")
    case hdr: (Ok hb)
    obtain hdr b where hb: "hb = (hdr, b)" by (cases hb)
    show ?thesis
    proof (cases "getNamespace c (fh_Nsp hdr) \<noteq> None \<and> fh_Type hdr = FrameConnect")
      case True
      with ok hdr hb obtain c1 c2 where
          1: "(if cl_useSchemas c \<and> 0 < sl_len b then absorbSchemaPayload V (fh_Nsp hdr) b c else Ok c) = Ok c1"
        and 2: "triggerEvent V (fh_Nsp hdr) ''connect'' VNil c1 = Ok c2"
        and 3: "(if fh_Nsp hdr = cl_nsp c2 then setupHeartbeat c2 else Ok c2) = Ok c'"
        by (auto simp: client_handleMessage_def)
      have "client_inv c1"
        using 1 inv absorbSchemaPayload_core same_core_inv by (auto split: if_splits)
      with 2 have "client_inv c2" by (rule trig [rotated])
      with 3 setupHeartbeat_ok show ?thesis by (fastforce split: if_splits)
    next
      case False
      with ok hdr hb inv show ?thesis
        by (auto simp: client_handleMessage_def clearPongTimeout_inv split: if_splits res.splits option.splits
            intro: trig cb)
    qed
  qed (use ok inv in \<open>auto simp: client_handleMessage_def\<close>)
qed

subsection \<open>Reachable clients\<close>

inductive client_step :: "client_env \<Rightarrow> client \<Rightarrow> client \<Rightarrow> bool" for V where
  message: "client_handleMessage V raw c = Ok c' \<Longrightarrow> client_step V c c'"
| tick: "heartbeat_tick V c = Ok c' \<Longrightarrow> client_step V c c'"
| timer: "timer_fires V t c = Ok c' \<Longrightarrow> client_step V c c'"
| disconnect: "client_handleClose V c = Ok c' \<Longrightarrow> client_step V c c'"
| dial: "connect V c = Ok c' \<Longrightarrow> client_step V c c'"
| emit: "doEmit V event payload cb nsp c = Ok c' \<Longrightarrow> client_step V c c'"
| join: "doJoin V room nsp c = Ok c' \<Longrightarrow> client_step V c c'"
| leave: "doLeave V room nsp c = Ok c' \<Longrightarrow> client_step V c c'"
| namespace: "client_Of V nsp c = Ok c' \<Longrightarrow> client_step V c c'"
| listen: "client_step V c (channel_On nsp event h c)"
| gate: "client_step V c (channel_Use nsp mw c)"
| schema: "client_step V c (registerSchemas nsp schemas c)"
| close: "client_step V c (client_Close c)"
| leave_namespace: "client_step V c (channel_Close nsp c)"

inductive client_reachable :: "client_env \<Rightarrow> gostring \<Rightarrow> options \<Rightarrow> client \<Rightarrow> bool" for V url opts where
  start: "client_reachable V url opts (client_New (cv_ext V) url opts)"
| step: "client_reachable V url opts c \<Longrightarrow> client_step V c c' \<Longrightarrow> client_reachable V url opts c'"

lemma client_New_inv: "client_inv (client_New E url opts)"
  by (simp add: client_New_def Let_def client_newNamespace_def ensureSchemaBucket_def with_bucket_def
      client_inv_defs positive_or_def Second_def)

lemma client_step_inv:
  assumes "client_step V c c'" and "client_lawful V" and "client_inv c"
  shows "client_inv c'"
  using assms(1)
proof (cases rule: client_step.cases)
  case (message raw)
  with keeps_stepD [OF client_handleMessage_inv [OF assms(2)] assms(3)] show ?thesis by blast
next
  case tick
  with keeps_stepD [OF heartbeat_tick_inv assms(3)] show ?thesis by blast
next
  case (timer t)
  with keeps_stepD [OF timer_fires_inv [OF assms(2)] assms(3)] show ?thesis by blast
next
  case disconnect
  with keeps_stepD [OF client_handleClose_inv [OF assms(2)] assms(3)] show ?thesis by blast
next
  case dial
  with keeps_stepD [OF connect_inv [OF assms(2)] assms(3)] show ?thesis by blast
next
  case (emit event payload cb nsp)
  with doEmit_core same_core_inv assms(3) show ?thesis by blast
next
  case (join room nsp)
  with send_frame_core same_core_inv assms(3) show ?thesis unfolding doJoin_def by blast
next
  case (leave room nsp)
  with send_frame_core same_core_inv assms(3) show ?thesis unfolding doLeave_def by blast
next
  case (namespace nsp)
  with client_Of_core same_core_inv assms(3) show ?thesis by blast
qed (use same_core_inv [OF assms(3)] registerSchemas_core client_Close_core upd_channel_core in
      \<open>auto simp: channel_On_def channel_Use_def intro: channel_Close_core\<close>)

lemma client_reachable_inv:
  "client_reachable V url opts c \<Longrightarrow> client_lawful V \<Longrightarrow> client_inv c"
proof (induction rule: client_reachable.induct)
  case start
  show ?case by (rule client_New_inv)
next
  case (step c c')
  then show ?case using client_step_inv by blast
qed

end
