(* ===== verification/Panic_Freedom.thy ===== *)
theory Panic_Freedom
  imports Server_Core Client_Invariant
begin

text \<open>
  Which code can panic, and end the process, since nothing recovers. A step is safe for an invariant if
  from a state that satisfies it the step does not panic and reaches only such states. The server's and
  the client's handlers of a received message are safe but for what they decode.
\<close>

subsection \<open>Safe steps\<close>

definition safe_at :: "('s \<Rightarrow> bool) \<Rightarrow> 's res \<Rightarrow> bool" where
  "safe_at I r = (case r of Ok s \<Rightarrow> I s | Err e \<Rightarrow> True | Panic q \<Rightarrow> False)"

lemma safe_at_simps [simp]:
  "safe_at I (Ok s) = I s" "safe_at I (Err e)" "\<not> safe_at I (Panic q)"
  by (simp_all add: safe_at_def)

lemma safe_at_no_panic: "safe_at I r \<Longrightarrow> r \<noteq> Panic q"
  by auto

definition safe_step :: "('s \<Rightarrow> bool) \<Rightarrow> 's step \<Rightarrow> bool" where
  "safe_step I f \<longleftrightarrow> (\<forall>s. I s \<longrightarrow> safe_at I (f s))"

definition safe_middleware :: "('s \<Rightarrow> bool) \<Rightarrow> 's middleware \<Rightarrow> bool" where
  "safe_middleware I mw \<longleftrightarrow> (\<forall>next. (\<forall>e. safe_step I (next e)) \<longrightarrow> safe_step I (mw next))"

lemma safe_stepI: "(\<And>s. I s \<Longrightarrow> safe_at I (f s)) \<Longrightarrow> safe_step I f"
  by (simp add: safe_step_def)

lemma safe_stepD: "safe_step I f \<Longrightarrow> I s \<Longrightarrow> safe_at I (f s)"
  by (simp add: safe_step_def)

lemma safe_andThen:
  "safe_at I r \<Longrightarrow> (\<And>s. r = Ok s \<Longrightarrow> I s \<Longrightarrow> safe_at J (g s)) \<Longrightarrow> safe_at J (andThen r g)"
  by (cases r) simp_all

lemma safe_foldm:
  "I s \<Longrightarrow> (\<And>x. x \<in> set xs \<Longrightarrow> safe_step I (f x)) \<Longrightarrow> safe_at I (foldm f xs s)"
proof (induction xs arbitrary: s)
  case (Cons x xs)
  then show ?case by (auto intro!: safe_andThen dest: safe_stepD)
qed simp

lemma safe_if_encoded:
  "no_panic r \<Longrightarrow> I w \<Longrightarrow> (\<And>buf. safe_at I (k buf w)) \<Longrightarrow> safe_at I (if_encoded r k w)"
  by (cases r) simp_all

lemma safe_run_chain:
  assumes "I s" and "\<And>m. m \<in> set ms \<Longrightarrow> safe_middleware I (invoke m)" and "safe_step I finish"
    and "\<And>e. safe_step I (reject e)"
  shows "safe_at I (run_chain invoke finish reject ms s)"
  using assms
proof (induction ms arbitrary: s)
  case (Cons m ms)
  let ?next = "\<lambda>err s. case err of Some e \<Rightarrow> reject e s | None \<Rightarrow> run_chain invoke finish reject ms s"
  have "safe_step I (?next err)" for err
    using Cons.IH Cons.prems by (cases err) (auto simp: safe_step_def)
  then have "safe_step I (invoke m ?next)"
    using Cons.prems(2) [of m] unfolding safe_middleware_def by simp
  with Cons.prems(1) show ?case by (auto dest: safe_stepD)
qed (auto dest: safe_stepD)

subsection \<open>Libraries and serializers\<close>

text \<open>The calls into the msgpack and DEFLATE packages report failure as an error.\<close>

definition externals_safe :: "externals \<Rightarrow> bool" where
  "externals_safe E \<longleftrightarrow> (\<forall>v. no_panic (mp_Marshal E v)) \<and> (\<forall>b. no_panic (mp_Unmarshal E b))
     \<and> (\<forall>b. no_panic (fl_Close E b)) \<and> (\<forall>b. no_panic (fl_ReadAll E b))"

definition serializers_safe :: "serializers \<Rightarrow> bool" where
  "serializers_safe s \<longleftrightarrow> (\<exists>enc dec. EncodePayload s = Some enc \<and> DecodePayload s = Some dec
     \<and> (\<forall>v. no_panic (enc v)) \<and> (\<forall>b. no_panic (dec b)))"

lemma no_panic_andThen: "no_panic r \<Longrightarrow> (\<And>x. r = Ok x \<Longrightarrow> no_panic (f x)) \<Longrightarrow> no_panic (andThen r f)"
  by (cases r) simp_all

lemma default_serializers_safe: "externals_safe E \<Longrightarrow> serializers_safe (DefaultSerializers E)"
  by (auto simp: serializers_safe_def DefaultSerializers_def DefaultEncodePayload_def DefaultDecodePayload_def
      deflateRaw_def inflateRaw_def externals_safe_def split: option.split intro!: no_panic_andThen)

lemma no_panic_foldm: "(\<And>x s. x \<in> set xs \<Longrightarrow> no_panic (f x s)) \<Longrightarrow> no_panic (foldm f xs s)"
  by (induction xs arbitrary: s) (simp_all add: no_panic_andThen)

lemma append_each_safe: "(\<And>x. x \<in> set xs \<Longrightarrow> no_panic (g x)) \<Longrightarrow> no_panic (append_each g xs acc)"
  unfolding append_each_def by (rule no_panic_foldm) (simp add: no_panic_andThen)

text \<open>Encoding with a schema never panics, whatever the payload; only decoding does.\<close>

lemma enc_spec_safe: "externals_safe E \<Longrightarrow> no_panic (enc_spec E def v)"
proof (induction E def v rule: enc_spec.induct)
  case (1 E t v)
  then have "no_panic (andThen (mp_Marshal E v) (\<lambda>p. Ok (length_prefixed p)))"
    by (auto simp: externals_safe_def intro: no_panic_andThen)
  then show ?case by simp
next
  case (3 E fs v)
  then show ?case by (auto intro!: append_each_safe split: field_def.split)
qed (auto intro: append_each_safe)

lemma schema_encode_safe: "externals_safe E \<Longrightarrow> no_panic (schema_EncodePayload E s v)"
  by (simp add: EncodePayload_enc_spec enc_spec_safe)

lemma encode_frame_no_panic:
  "EncodePayload s = Some enc \<Longrightarrow> (\<And>v. no_panic (enc v)) \<Longrightarrow> no_panic (EncodeFrame E opts (Some s))"
  by (auto simp: EncodeFrame_layout payload_bytes_def intro!: no_panic_andThen)

lemma encode_frame_safe: "serializers_safe s \<Longrightarrow> no_panic (EncodeFrame E opts (Some s))"
  by (auto simp: serializers_safe_def intro: encode_frame_no_panic)

lemma call_decode_safe: "serializers_safe s \<Longrightarrow> no_panic (call (DecodePayload s) b)"
  by (auto simp: serializers_safe_def)

subsection \<open>The server\<close>

definition calm :: "world \<Rightarrow> bool" where
  "calm w \<longleftrightarrow> serializers_safe (sv_serializers w)"

text \<open>
  The law of user code: it does not panic itself, in a state with safe serializers, if the functions it is
  handed do not, and it leaves the serializers safe.
\<close>

definition env_safe :: "env \<Rightarrow> bool" where
  "env_safe V \<longleftrightarrow>
     (\<forall>m p. safe_middleware calm (ev_connMiddleware V m p)) \<and>
     (\<forall>f p. safe_step calm (ev_connHandler V f p)) \<and>
     (\<forall>m. safe_middleware (\<lambda>s. calm (snd s)) (ev_socketMiddleware V m)) \<and>
     (\<forall>f payload ack. (\<forall>a resp. ack = Some a \<longrightarrow> safe_step calm (a resp)) \<longrightarrow>
        safe_step calm (ev_eventHandler V f payload ack))"

lemma env_safeD:
  assumes "env_safe V"
  shows "safe_middleware calm (ev_connMiddleware V m p)" and "safe_step calm (ev_connHandler V f p)"
    and "safe_middleware (\<lambda>s. calm (snd s)) (ev_socketMiddleware V m)"
    and "(\<And>a resp. ack = Some a \<Longrightarrow> safe_step calm (a resp)) \<Longrightarrow> safe_step calm (ev_eventHandler V f payload ack)"
  using assms unfolding env_safe_def by blast+

lemma calm_sel [simp]:
  "calm (upd_socket p f w) = calm w" "calm (upd_hub h g w) = calm w" "calm (upd_ns nsp k w) = calm w"
  "calm (w\<lparr>w_sockets := n\<rparr>) = calm w"
  by (simp_all add: calm_def)

lemma calm_ops [simp]:
  "calm (socket_send p buf w) = calm w" "calm (hub_send h buf w) = calm w" "calm (closeConn p w) = calm w"
  "calm (Join p room w) = calm w" "calm (Leave p room w) = calm w" "calm (register_socket h nsp p w) = calm w"
  by (simp_all add: socket_send_def hub_send_def closeConn_def Join_def Leave_def register_socket_def addSocket_def)

text \<open>A frame written with the server's own serializers and sent.\<close>

lemma send_safe:
  "calm w \<Longrightarrow> (\<And>buf. calm (k buf w)) \<Longrightarrow>
    safe_at calm (if_encoded (EncodeFrame E opts (Some (sv_serializers w))) (\<lambda>buf w. Ok (k buf w)) w)"
  by (rule safe_if_encoded) (simp_all add: calm_def encode_frame_safe)

text \<open>Emitting, with the server's serializers or a schema's.\<close>

lemma serializersFor_safe:
  assumes "externals_safe (ev_ext V)" and "calm w"
  shows "no_panic (EncodeFrame E opts (Some (serializersFor V w nsp event)))"
proof (cases "schemaFor (ns_at w nsp) event")
  case None
  then show ?thesis using assms(2) by (simp add: serializersFor_def calm_def encode_frame_safe)
next
  case (Some s)
  then have "EncodePayload (serializersFor V w nsp event) = Some (schema_EncodePayload (ev_ext V) s)"
    by (simp add: serializersFor_def)
  then show ?thesis by (rule encode_frame_no_panic) (rule schema_encode_safe [OF assms(1)])
qed

lemma toExcluding_safe:
  assumes "externals_safe (ev_ext V)"
  shows "safe_step calm (toExcluding V nsp room event payload ex)"
proof (rule safe_stepI)
  fix w assume w: "calm w"
  have "calm (fold (\<lambda>s w. if Some s = ex then w else if HasRoom s room w then socket_send s buf w else w) ps w') = calm w'"
    for buf ps w' by (induction ps arbitrary: w') simp_all
  with w show "safe_at calm (toExcluding V nsp room event payload ex w)"
    by (simp add: toExcluding_def safe_if_encoded serializersFor_safe [OF assms])
qed

lemma ack_function_safe: "safe_step calm (ack_function V p event ackID resp)"
  by (rule safe_stepI) (simp add: ack_function_def send_safe)

lemma invokeHandler_safe: "env_safe V \<Longrightarrow> safe_step calm (invokeHandler V p packet ackID)"
  by (rule safe_stepI)
     (auto simp: invokeHandler_def split: option.split if_splits intro!: safe_stepD [OF env_safeD(4)] ack_function_safe)

lemma reject_event_safe: "safe_step calm (reject_event V p ackID e)"
  by (rule safe_stepI) (simp add: reject_event_def send_safe)

lemma with_packet_safe: "(\<And>packet. safe_step calm (f packet)) \<Longrightarrow> safe_step (\<lambda>s. calm (snd s)) (with_packet f)"
  by (rule safe_stepI) (auto simp: with_packet_def dest: safe_stepD intro!: safe_andThen [where I = calm])

lemma processEvent_safe: "env_safe V \<Longrightarrow> calm w \<Longrightarrow> safe_at calm (processEvent V p fr w)"
  unfolding processEvent_def
  by (rule safe_andThen [where I = "\<lambda>s. calm (snd s)"])
     (auto intro!: safe_run_chain env_safeD(3) with_packet_safe invokeHandler_safe reject_event_safe)

lemma dispatch_safe: "env_safe V \<Longrightarrow> calm w \<Longrightarrow> safe_at calm (dispatch V p fr w)"
  by (simp add: dispatch_def processEvent_safe send_safe split: option.split)

lemma connected_safe: "env_safe V \<Longrightarrow> safe_step calm (connected V h nsp p exported passed)"
proof (rule safe_stepI)
  fix w assume V: "env_safe V" and w: "calm w"
  have "safe_at calm (fireConnection V nsp p w)" if "calm w" for w
    using that unfolding fireConnection_def by (rule safe_foldm) (rule env_safeD(2) [OF V])
  with w show "safe_at calm (connected V h nsp p exported passed w)"
    by (auto simp: connected_def Let_def intro!: safe_andThen [where I = calm] send_safe)
qed

lemma reject_connection_safe:
  "(\<And>passed. safe_step calm (done passed)) \<Longrightarrow> safe_step calm (reject_connection V nsp p done e)"
  by (rule safe_stepI)
     (auto simp: reject_connection_def intro!: safe_andThen [where I = calm] send_safe intro: safe_stepD)

lemma runMiddlewares_safe:
  assumes "env_safe V" and "calm w"
  shows "safe_at calm (runMiddlewares V nsp p (connected V h nsp p exported) w)"
  unfolding runMiddlewares_def
  by (intro safe_run_chain assms(2) env_safeD(1) [OF assms(1)] connected_safe [OF assms(1)] reject_connection_safe)

lemma handleNamespaceConnect_safe:
  "env_safe V \<Longrightarrow> calm w \<Longrightarrow> safe_at calm (handleNamespaceConnect V h nsp w)"
  by (auto simp: handleNamespaceConnect_def newSocket_def Let_def split: option.split
      intro!: send_safe runMiddlewares_safe)

text \<open>What can panic while a message is handled is the decoding of its payload, and only with a schema.\<close>

lemma hub_decode_panic:
  assumes "calm w"
  shows "hub_decode V w b ev nsp = Panic q \<longleftrightarrow> (\<exists>ns s. fmlookup (sv_namespaces w) nsp = Some ns
    \<and> schemaFor ns ev = Some s \<and> schema_DecodePayload (ev_ext V) s b = Panic q)"
  using assms call_decode_safe [of "sv_serializers w" b]
  by (auto simp: hub_decode_def calm_def no_panic_iff split: option.split)

lemma decode_with_hub:
  "DecodeFrame E raw (Some (hub_serializers V w)) = Panic q \<longleftrightarrow>
    (\<exists>hdr b. DecodeFrameHeader raw = Ok (hdr, b) \<and> 0 < sl_len b \<and> hub_decode V w b (fh_Event hdr) (fh_Nsp hdr) = Panic q)"
proof (cases "DecodeFrameHeader raw")
  case (Ok hb)
  then show ?thesis
    by (cases hb; cases "hub_decode V w (snd hb) (fh_Event (fst hb)) (fh_Nsp (fst hb))")
       (auto simp: DecodeFrame_def hub_serializers_def Let_def)
next
  case (Panic q')
  then show ?thesis using DecodeFrameHeader_no_panic [of raw] by simp
qed (simp add: DecodeFrame_def Let_def)

lemma handleMessage_panic:
  assumes "env_safe V" and "calm w"
  shows "handleMessage V h raw w = Panic q \<longleftrightarrow>
    (\<exists>hdr b. DecodeFrameHeader raw = Ok (hdr, b) \<and> 0 < sl_len b \<and> hub_decode V w b (fh_Event hdr) (fh_Nsp hdr) = Panic q)"
proof (cases "DecodeFrame (ev_ext V) raw (Some (hub_serializers V w))")
  case (Ok fr)
  then have "safe_at calm (handleMessage V h raw w)"
    using assms by (auto simp: handleMessage_def split: option.split intro: handleNamespaceConnect_safe dispatch_safe)
  then have "handleMessage V h raw w \<noteq> Panic q" by auto
  with Ok show ?thesis using decode_with_hub [of "ev_ext V" raw V w q] by simp
qed (use decode_with_hub [of "ev_ext V" raw V w q] in \<open>simp_all add: handleMessage_def\<close>)

subsection \<open>The client\<close>

definition client_calm :: "client \<Rightarrow> bool" where
  "client_calm c \<longleftrightarrow> client_inv c \<and> serializers_safe (cl_serializers c)"

definition client_env_safe :: "client_env \<Rightarrow> bool" where
  "client_env_safe V \<longleftrightarrow>
     (\<forall>h data. safe_step client_calm (cv_handler V h data)) \<and>
     (\<forall>cb data. safe_step client_calm (cv_ackCallback V cb data)) \<and>
     (\<forall>m. safe_middleware (\<lambda>s. client_calm (snd s)) (cv_middleware V m))"

lemma client_env_safeD:
  assumes "client_env_safe V"
  shows "safe_step client_calm (cv_handler V h data)" and "safe_step client_calm (cv_ackCallback V cb data)"
    and "safe_middleware (\<lambda>s. client_calm (snd s)) (cv_middleware V m)"
  using assms by (simp_all add: client_env_safe_def)

lemma same_core_calm: "client_calm c \<Longrightarrow> same_core c c' \<Longrightarrow> client_calm c'"
  using same_core_inv by (auto simp: client_calm_def same_core_def)

lemma call_handler_safe: "client_env_safe V \<Longrightarrow> client_calm c \<Longrightarrow> safe_at client_calm (call_handler V nsp event data c)"
  by (auto simp: call_handler_def split: option.split intro: safe_stepD client_env_safeD(1))

lemma triggerEvent_safe:
  assumes "client_env_safe V" and "client_calm c"
  shows "safe_at client_calm (triggerEvent V nsp event data c)"
proof -
  let ?J = "\<lambda>s :: event_packet \<times> client. client_calm (snd s)"
  let ?finish = "\<lambda>(packet, c). andThen (call_handler V nsp (pk_Event packet) (pk_Payload packet) c) (\<lambda>c. Ok (packet, c))"
  have "safe_step ?J ?finish"
    by (rule safe_stepI) (auto intro!: safe_andThen [where I = client_calm] call_handler_safe assms(1))
  then have "safe_at ?J (run_chain (cv_middleware V) ?finish (\<lambda>e. Ok) (cn_middlewares (channel_at c nsp))
      (\<lparr>pk_Event = event, pk_Payload = data\<rparr>, c))"
    using assms by (intro safe_run_chain client_env_safeD(3)) (auto simp: safe_step_def)
  with assms call_handler_safe show ?thesis
    by (auto simp: triggerEvent_def Let_def intro!: safe_andThen [where I = ?J])
qed

lemma setupHeartbeat_safe: "client_calm c \<Longrightarrow> safe_at client_calm (setupHeartbeat c)"
  using setupHeartbeat_ok [of c] by (auto simp: client_calm_def)

lemma clearPongTimeout_calm: "client_calm c \<Longrightarrow> client_calm (clearPongTimeout c)"
  by (auto simp: client_calm_def clearPongTimeout_inv) (simp add: clearPongTimeout_def stop_timer_def split: option.split)

text \<open>Emitting never panics either.\<close>

lemma send_frame_safe:
  assumes "EncodePayload ser = Some enc" and "\<And>v. no_panic (enc v)" and "client_calm c"
  shows "safe_at client_calm (send_frame V opts ser c)"
proof (cases "send_frame V opts ser c")
  case (Panic q)
  with encode_frame_no_panic [OF assms(1,2), of "cv_ext V" opts] show ?thesis
    by (cases "EncodeFrame (cv_ext V) opts (Some ser)") (simp_all add: send_frame_def)
qed (auto intro: same_core_calm [OF assms(3)] send_frame_core)

lemma doEmit_safe:
  assumes "externals_safe (cv_ext V)"
  shows "safe_step client_calm (doEmit V event payload cb nsp)"
proof (rule safe_stepI)
  fix c assume c: "client_calm c"
  define c1 where "c1 = (case cb of None \<Rightarrow> c
    | Some k \<Rightarrow> c\<lparr>cl_ackCallbacks := fmupd (cl_ackCounter c) k (cl_ackCallbacks c), cl_ackCounter := cl_ackCounter c + 1\<rparr>)"
  have c1: "client_calm c1"
    by (rule same_core_calm [OF c]) (simp add: c1_def same_core_def split: option.split)
  then obtain enc where enc: "EncodePayload (cl_serializers c1) = Some enc" "\<And>v. no_panic (enc v)"
    by (auto simp: client_calm_def serializers_safe_def)
  define ser where "ser = (case schema_lookup c1 nsp event of
        Some schema \<Rightarrow> \<lparr>EncodePayload = Some (schema_EncodePayload (cv_ext V) schema),
          DecodePayload = None, DecodePayloadWithEvent = None\<rparr>
      | None \<Rightarrow> cl_serializers c1)"
  have emit: "doEmit V event payload cb nsp c = send_frame V
      (event_frame FrameEvent nsp event (case cb of None \<Rightarrow> 0 | Some k \<Rightarrow> cl_ackCounter c) payload) ser c1"
    by (simp add: doEmit_def Let_def ser_def c1_def split: option.split)
  show "safe_at client_calm (doEmit V event payload cb nsp c)"
  proof (cases "schema_lookup c1 nsp event")
    case None
    with enc c1 show ?thesis unfolding emit by (simp add: ser_def send_frame_safe)
  next
    case (Some s)
    with c1 show ?thesis unfolding emit
      by (simp add: ser_def send_frame_safe [OF _ schema_encode_safe [OF assms]])
  qed
qed

text \<open>Reading a received table of schemas.\<close>

lemma absorb_panic:
  "absorbSchemaPayload V nsp b c = Panic q \<longleftrightarrow>
     (if nsp = ''/'' then DecodeRootSchemaPayload (cv_ext V) (cv_stack V) b = Panic q
      else DecodeNamespaceSchemaPayload (cv_ext V) (cv_stack V) b = Panic q)"
  by (simp add: absorbSchemaPayload_def split: res.split)

lemma absorb_safe:
  "client_calm c \<Longrightarrow> (\<And>q. absorbSchemaPayload V nsp b c \<noteq> Panic q) \<Longrightarrow>
    safe_at client_calm (absorbSchemaPayload V nsp b c)"
  by (cases "absorbSchemaPayload V nsp b c") (auto intro: same_core_calm absorbSchemaPayload_core)

lemma decodeAppPayload_panic:
  assumes "client_calm c"
  shows "decodeAppPayload V c b ev nsp = Panic q \<longleftrightarrow>
    0 < sl_len b \<and> (\<exists>s. schema_lookup c nsp ev = Some s \<and> schema_DecodePayload (cv_ext V) s b = Panic q)"
  using assms call_decode_safe [of "cl_serializers c" b]
  by (auto simp: decodeAppPayload_def client_calm_def no_panic_iff split: option.split)

lemma client_handleMessage_panic:
  assumes "client_env_safe V" and "client_calm c"
    and hdr: "DecodeFrameHeader raw = Ok (hdr, b)" "getNamespace c (fh_Nsp hdr) \<noteq> None"
  shows "client_handleMessage V raw c = Panic q \<longleftrightarrow>
    (if fh_Type hdr = FrameConnect
     then cl_useSchemas c \<and> 0 < sl_len b \<and> absorbSchemaPayload V (fh_Nsp hdr) b c = Panic q
     else fh_Type hdr \<in> {FrameEvent, FrameAck} \<and> decodeAppPayload V c b (fh_Event hdr) (fh_Nsp hdr) = Panic q)"
proof (cases "fh_Type hdr = FrameConnect")
  case True
  let ?absorb = "if cl_useSchemas c \<and> 0 < sl_len b then absorbSchemaPayload V (fh_Nsp hdr) b c else Ok c"
  let ?rest = "\<lambda>c. andThen (triggerEvent V (fh_Nsp hdr) ''connect'' VNil c)
      (\<lambda>c. if fh_Nsp hdr = cl_nsp c then setupHeartbeat c else Ok c)"
  have rest: "safe_at client_calm (?rest c1)" if "client_calm c1" for c1
    using that by (intro safe_andThen [where I = client_calm] triggerEvent_safe [OF assms(1)]) (auto intro: setupHeartbeat_safe)
  have msg: "client_handleMessage V raw c = andThen ?absorb ?rest"
    using hdr True by (auto simp: client_handleMessage_def)
  show ?thesis
  proof (cases ?absorb)
    case (Ok c1)
    then have "client_calm c1"
      using assms(2) by (auto split: if_splits intro: same_core_calm absorbSchemaPayload_core)
    with rest [of c1] Ok show ?thesis unfolding msg using True by (auto split: if_splits)
  qed (use True in \<open>auto simp: msg split: if_splits\<close>)
next
  case False
  note trig = triggerEvent_safe [OF assms(1,2), THEN safe_at_no_panic]
  have cb: "cv_ackCallback V f v (c\<lparr>cl_ackCallbacks := m\<rparr>) \<noteq> Panic q" for f v m
  proof (rule safe_at_no_panic [OF safe_stepD [OF client_env_safeD(2) [OF assms(1)]]])
    show "client_calm (c\<lparr>cl_ackCallbacks := m\<rparr>)"
      using assms(2) by (auto simp: client_calm_def client_inv_defs)
  qed
  from False show ?thesis
    using hdr trig cb
    by (cases "decodeAppPayload V c b (fh_Event hdr) (fh_Nsp hdr)")
       (auto simp: client_handleMessage_def frame_types split: option.split if_splits)
qed

end
