(* ===== verification/Server_Laws.thy ===== *)
theory Server_Laws
  imports Server_Core
begin

text \<open>
  The interface between the store and the laws stated over it. A law is a relation between the store
  before and after; the locale \<open>store_law\<close> asks that it is a preorder and that the few ways in which the
  package writes to the store respect it, and gives in return that every operation does, user code
  included, as long as user code itself only uses the operations. Two laws are instances: the invariant
  is kept (\<open>Server_Invariant\<close>), and members are retained (\<open>Server_Invariant\<close> again).
\<close>

subsection \<open>What no operation undoes\<close>

text \<open>What is allocated stays, with its identity, and so do namespaces and the server's configuration.\<close>

abbreviation configuration :: "world \<Rightarrow> gostring list \<times> bool \<times> serializers" where
  "configuration w \<equiv> (sv_allowedOrigins w, sv_useSchemas w, sv_serializers w)"

definition grows :: "world \<Rightarrow> world \<Rightarrow> bool" where
  "grows w w' \<longleftrightarrow> w_sockets w \<le> w_sockets w' \<and> w_hubs w \<le> w_hubs w'
     \<and> fmdom (sv_namespaces w) |\<subseteq>| fmdom (sv_namespaces w')
     \<and> (\<forall>p < w_sockets w. so_ID (w_socket w' p) = so_ID (w_socket w p)
          \<and> so_Nsp (w_socket w' p) = so_Nsp (w_socket w p) \<and> so_hub (w_socket w' p) = so_hub (w_socket w p))
     \<and> configuration w' = configuration w"

lemma grows_refl [simp]: "grows w w"
  by (simp add: grows_def)

lemma grows_trans: "grows w w' \<Longrightarrow> grows w' w'' \<Longrightarrow> grows w w''"
  by (fastforce simp: grows_def)

text \<open>A socket that was made for this hub and namespace.\<close>

definition owned :: "world \<Rightarrow> hid \<Rightarrow> gostring \<Rightarrow> sid \<Rightarrow> bool" where
  "owned w h nsp p \<longleftrightarrow> p < w_sockets w \<and> so_Nsp (w_socket w p) = nsp \<and> so_hub (w_socket w p) = h
     \<and> h < w_hubs w \<and> nsp |\<in>| fmdom (sv_namespaces w)"

lemma owned_grows: "owned w h nsp p \<Longrightarrow> grows w w' \<Longrightarrow> owned w' h nsp p"
  by (auto simp: owned_def grows_def)

lemma newSocket_sel:
  assumes "newSocket V h nsp hs w = (p, w')"
  shows "p = w_sockets w" "w_sockets w' = Suc p" "w_hubs w' = w_hubs w" "w_hub w' = w_hub w"
    "sv_namespaces w' = sv_namespaces w" "so_hub (w_socket w' p) = h" "so_Nsp (w_socket w' p) = nsp"
    "\<And>q. q \<noteq> p \<Longrightarrow> w_socket w' q = w_socket w q" "configuration w' = configuration w" "ns_at w' = ns_at w"
  using assms by (auto simp: newSocket_def Let_def upd_socket_def ns_at_def fun_eq_iff)

lemma newConnHub_sel:
  assumes "newConnHub hs w = (h, w')"
  shows "h = w_hubs w" "w_hubs w' = Suc h" "w_sockets w' = w_sockets w" "w_socket w' = w_socket w"
    "sv_namespaces w' = sv_namespaces w" "hb_sockets (w_hub w' h) = fmempty"
    "\<And>k. k \<noteq> h \<Longrightarrow> w_hub w' k = w_hub w k" "configuration w' = configuration w" "ns_at w' = ns_at w"
  using assms by (auto simp: newConnHub_def Let_def upd_hub_def ns_at_def fun_eq_iff)

subsection \<open>Steps and user code that obey a law\<close>

definition obeys :: "(world \<Rightarrow> world \<Rightarrow> bool) \<Rightarrow> world step \<Rightarrow> bool" where
  "obeys R f \<longleftrightarrow> (\<forall>w w'. f w = Ok w' \<longrightarrow> R w w')"

lemma obeysD: "obeys R f \<Longrightarrow> f w = Ok w' \<Longrightarrow> R w w'"
  by (simp add: obeys_def)

text \<open>
  User code obeys a law if it changes the store only in ways that do, given that the functions it is
  handed do. Any composition of the package's operations is such code.
\<close>

definition env_obeys :: "(world \<Rightarrow> world \<Rightarrow> bool) \<Rightarrow> env \<Rightarrow> bool" where
  "env_obeys R V \<longleftrightarrow>
     (\<forall>m p w. keeps_middleware (R w) (ev_connMiddleware V m p)) \<and>
     (\<forall>f p. obeys R (ev_connHandler V f p)) \<and>
     (\<forall>m w. keeps_middleware (\<lambda>s. R w (snd s)) (ev_socketMiddleware V m)) \<and>
     (\<forall>f payload ack. (\<forall>a resp. ack = Some a \<longrightarrow> obeys R (a resp)) \<longrightarrow> obeys R (ev_eventHandler V f payload ack))"

lemma env_obeysD:
  assumes "env_obeys R V"
  shows "keeps_middleware (R w) (ev_connMiddleware V m p)"
    and "obeys R (ev_connHandler V f p)"
    and "keeps_middleware (\<lambda>s. R w (snd s)) (ev_socketMiddleware V m)"
    and "(\<And>a resp. ack = Some a \<Longrightarrow> obeys R (a resp)) \<Longrightarrow> obeys R (ev_eventHandler V f payload ack)"
  using assms unfolding env_obeys_def by blast+

subsection \<open>The interface\<close>

locale store_law =
  fixes R :: "world \<Rightarrow> world \<Rightarrow> bool"
  assumes R_refl: "R w w"
    and R_trans: "R w w' \<Longrightarrow> R w' w'' \<Longrightarrow> R w w''"
    and R_grows: "R w w' \<Longrightarrow> grows w w'"
    and R_socket: "so_ID (f (w_socket w p)) = so_ID (w_socket w p) \<Longrightarrow>
      so_Nsp (f (w_socket w p)) = so_Nsp (w_socket w p) \<Longrightarrow>
      so_hub (f (w_socket w p)) = so_hub (w_socket w p) \<Longrightarrow> R w (upd_socket p f w)"
    and R_hub: "hb_sockets (g (w_hub w h)) = hb_sockets (w_hub w h) \<Longrightarrow> R w (upd_hub h g w)"
    and R_ns: "ns_Name (u (ns_at w nsp)) = ns_Name (ns_at w nsp) \<Longrightarrow>
      ns_sockets (u (ns_at w nsp)) = ns_sockets (ns_at w nsp) \<Longrightarrow> R w (upd_ns nsp u w)"
    and R_deliver: "R w (deliver S buf w)"
    and R_Of: "R w (Of name w)"
    and R_newSocket: "newSocket V h nsp hs w = (p, w') \<Longrightarrow> R w w'"
    and R_newConnHub: "newConnHub hs w = (h, w') \<Longrightarrow> R w w'"
    and R_register: "owned w h nsp p \<Longrightarrow> R w (register_socket h nsp p w)"
begin

lemma keeps_obeys: "obeys R f \<Longrightarrow> keeps_step (R w) f"
  by (auto simp: obeys_def keeps_step_def intro: R_trans)

lemma obeys_foldm:
  assumes "foldm f xs w = Ok w'" and "\<And>x. x \<in> set xs \<Longrightarrow> obeys R (f x)"
  shows "R w w'"
  using assms
proof (induction xs arbitrary: w)
  case Nil
  then show ?case by (simp add: R_refl)
next
  case (Cons x xs)
  from Cons.prems(1) obtain w1 where "f x w = Ok w1" "foldm f xs w1 = Ok w'" by auto
  with Cons show ?case by (metis R_trans list.set_intros obeysD)
qed

text \<open>The operations of the interface.\<close>

lemma R_send: "R w (hub_send h buf w)" "R w (socket_send p buf w)"
  by (simp_all add: socket_send_def hub_send_def R_hub R_refl)

lemma R_closeConn: "R w (closeConn p w)"
  unfolding closeConn_def by (rule R_trans [OF R_socket R_hub]) simp_all

lemma R_rooms: "R w (Join p room w)" "R w (Leave p room w)"
  by (simp_all add: Join_def Leave_def join_room_def leave_room_def R_socket)

lemma R_listeners: "R w (socket_On p event k w)" "R w (socket_Use p mw w)"
  by (simp_all add: socket_On_def socket_Use_def R_socket)

lemma R_namespaces: "R w (ns_Use nsp mw w)" "R w (ns_OnConnection nsp k w)"
  by (simp_all add: ns_Use_def ns_OnConnection_def R_ns)

lemma R_Schema: "R w (ns_Schema nsp schemas w)"
proof -
  have "ns_Name (fold (\<lambda>s ns. ns\<lparr>ns_schemas := fmupd (sc_Name s) s (ns_schemas ns)\<rparr>) schemas ns) = ns_Name ns
      \<and> ns_sockets (fold (\<lambda>s ns. ns\<lparr>ns_schemas := fmupd (sc_Name s) s (ns_schemas ns)\<rparr>) schemas ns) = ns_sockets ns" for ns
    by (induction schemas arbitrary: ns) simp_all
  from conjunct1 [OF this] conjunct2 [OF this] show ?thesis
    unfolding ns_Schema_def by (rule R_ns)
qed

lemmas R_api = R_send R_closeConn R_deliver R_Of R_rooms R_listeners R_namespaces R_Schema

lemma R_if_encoded:
  "if_encoded r (\<lambda>buf w. Ok (g buf w)) w = Ok w' \<Longrightarrow> (\<And>buf. R w (g buf w)) \<Longrightarrow> R w w'"
  by (cases r) (auto simp: R_refl)

lemma R_emit:
  "env_ranges V \<Longrightarrow> obeys R (emitExcluding V nsp event payload ex)"
  "env_ranges V \<Longrightarrow> obeys R (toExcluding V nsp room event payload ex)"
  by (auto simp: obeys_def emitExcluding_deliver toExcluding_deliver elim!: R_if_encoded intro: R_deliver)

lemma R_socket_Emit: "obeys R (socket_Emit V p event payload)"
  by (auto simp: obeys_def socket_Emit_def Let_def elim!: R_if_encoded intro: R_send)

lemma R_ack: "obeys R (ack_function V p event ackID resp)"
  by (auto simp: obeys_def ack_function_def elim!: R_if_encoded intro: R_send)

lemma R_reject_event: "obeys R (reject_event V p ackID e)"
  by (auto simp: obeys_def reject_event_def elim!: R_if_encoded intro: R_send R_refl)

lemma R_emitter: "(\<And>f. e = Some f \<Longrightarrow> obeys R (f event payload)) \<Longrightarrow> obeys R (Emitter_Emit e event payload)"
  by (cases e) (auto simp: Emitter_Emit_def obeys_def R_refl)

text \<open>Accepting a socket, the connection chain, connecting to a namespace.\<close>

lemma R_connected:
  assumes V: "env_obeys R V" and own: "owned w h nsp p" and ok: "connected V h nsp p ex passed w = Ok w'"
  shows "R w w'"
proof (cases passed)
  case False
  with ok show ?thesis by (simp add: connected_def R_refl)
next
  case True
  let ?w = "register_socket h nsp p w"
  from ok True obtain w1 where send: "if_encoded (EncodeFrame (ev_ext V) (event_frame FrameConnect nsp [] 0
      (if sv_useSchemas ?w then ex ?w else VNil)) (Some (sv_serializers ?w)))
      (\<lambda>buf w. Ok (socket_send p buf w)) ?w = Ok w1"
    and fire: "fireConnection V nsp p w1 = Ok w'"
    by (auto simp: connected_def Let_def)
  have "R ?w w1" using send by (rule R_if_encoded) (rule R_send)
  moreover have "R w1 w'"
    using fire unfolding fireConnection_def
    by (rule obeys_foldm) (rule env_obeysD(2) [OF V])
  ultimately show ?thesis using R_register [OF own] R_trans by blast
qed

lemma keeps_connected:
  assumes "env_obeys R V" and "owned w h nsp p"
  shows "keeps_step (R w) (connected V h nsp p ex passed)"
proof (unfold keeps_step_def, intro allI impI)
  fix s s' assume s: "R w s" and "connected V h nsp p ex passed s = Ok s'"
  moreover have "owned s h nsp p" by (rule owned_grows [OF assms(2) R_grows [OF s]])
  ultimately show "R w s'" using R_connected [OF assms(1)] R_trans by blast
qed

lemma keeps_reject_connection:
  assumes "env_obeys R V" and "owned w h nsp p"
  shows "keeps_step (R w) (reject_connection V nsp p (connected V h nsp p ex) e)"
proof (unfold keeps_step_def, intro allI impI)
  fix s s' assume s: "R w s" and "reject_connection V nsp p (connected V h nsp p ex) e s = Ok s'"
  then obtain s1 where 1: "if_encoded (EncodeFrame (ev_ext V)
        (event_frame FrameAck (ns_Name (ns_at s nsp)) ''error'' 0 (message_payload (ev_Error V e)))
        (Some (sv_serializers s))) (\<lambda>buf w. Ok (socket_send p buf w)) s = Ok s1"
    and 2: "connected V h nsp p ex False (closeConn p s1) = Ok s'"
    by (auto simp: reject_connection_def)
  from 1 have "R s s1" by (rule R_if_encoded) (rule R_send)
  with s have "R w (closeConn p s1)" using R_closeConn R_trans by blast
  from keeps_connected [OF assms] this 2 show "R w s'" by (rule keeps_stepD)
qed

lemma R_connection_chain:
  assumes "env_obeys R V" and "owned w h nsp p"
    and ok: "run_chain (\<lambda>m. ev_connMiddleware V m p) (connected V h nsp p ex True)
      (reject_connection V nsp p (connected V h nsp p ex)) ms w = Ok w'"
  shows "R w w'"
proof -
  have "keeps_step (R w) (run_chain (\<lambda>m. ev_connMiddleware V m p) (connected V h nsp p ex True)
      (reject_connection V nsp p (connected V h nsp p ex)) ms)"
    by (intro keeps_run_chain env_obeysD(1) [OF assms(1)] keeps_connected keeps_reject_connection assms)
  from this R_refl ok show ?thesis by (rule keeps_stepD)
qed

lemma R_namespace_connect:
  assumes V: "env_obeys R V" and h: "h < w_hubs w" and ok: "handleNamespaceConnect V h nsp w = Ok w'"
  shows "R w w'"
proof (cases "fmlookup (sv_namespaces w) nsp")
  case None
  with ok show ?thesis
    by (auto simp: handleNamespaceConnect_def elim!: R_if_encoded intro: R_send)
next
  case (Some ns)
  obtain p w1 where new: "newSocket V h nsp (hb_handshake (w_hub w h)) w = (p, w1)" by fastforce
  note n = newSocket_sel [OF new]
  have "owned w1 h nsp p" using n h Some by (auto simp: owned_def fmdomI)
  moreover have "runMiddlewares V nsp p (connected V h nsp p (\<lambda>w. exportSchemas (ns_at w nsp))) w1 = Ok w'"
    using ok Some new by (simp add: handleNamespaceConnect_def)
  ultimately have "R w1 w'" unfolding runMiddlewares_def by (rule R_connection_chain [OF V])
  with R_newSocket [OF new] show ?thesis by (rule R_trans)
qed

text \<open>Events.\<close>

lemma R_invokeHandler:
  assumes "env_obeys R V"
  shows "obeys R (invokeHandler V p packet ackID)"
  unfolding obeys_def
proof (intro allI impI)
  fix w w' assume ok: "invokeHandler V p packet ackID w = Ok w'"
  let ?ack = "if 0 < ackID then Some (ack_function V p (pk_Event packet) ackID) else None"
  have "obeys R (ev_eventHandler V f (pk_Payload packet) ?ack)" for f
    by (rule env_obeysD(4) [OF assms]) (auto split: if_splits intro: R_ack)
  with ok show "R w w'"
    by (auto simp: invokeHandler_def R_refl split: option.splits dest: obeysD)
qed

lemma R_with_packet:
  assumes "\<And>packet. obeys R (f packet)"
  shows "keeps_step (\<lambda>s. R w (snd s)) (with_packet f)"
  using assms by (auto simp: keeps_step_def with_packet_def obeys_def intro: R_trans)

lemma R_event_chain:
  assumes "env_obeys R V"
    and run: "run_chain (ev_socketMiddleware V) (with_packet (\<lambda>packet. invokeHandler V p packet ackID))
      (\<lambda>e. with_packet (\<lambda>packet. reject_event V p ackID e)) ms (packet, w) = Ok (packet', w')"
  shows "R w w'"
proof -
  have "keeps_step (\<lambda>s. R w (snd s)) (run_chain (ev_socketMiddleware V)
      (with_packet (\<lambda>packet. invokeHandler V p packet ackID))
      (\<lambda>e. with_packet (\<lambda>packet. reject_event V p ackID e)) ms)"
    by (intro keeps_run_chain env_obeysD(3) [OF assms(1)] R_with_packet R_invokeHandler [OF assms(1)] R_reject_event)
  from keeps_stepD [OF this _ run] show ?thesis by (simp add: R_refl)
qed

lemma R_processEvent:
  assumes "env_obeys R V"
  shows "obeys R (processEvent V p fr)"
  using R_event_chain [OF assms] by (fastforce simp: obeys_def processEvent_def)

lemma R_dispatch:
  assumes "env_obeys R V"
  shows "obeys R (dispatch V p fr)"
  unfolding obeys_def
proof (intro allI impI)
  fix w w' assume "dispatch V p fr w = Ok w'"
  then show "R w w'"
    using obeysD [OF R_processEvent [OF assms]]
    by (auto simp: dispatch_def R_refl split: if_splits option.splits elim!: R_if_encoded intro: R_api)
qed

lemma R_handleMessage:
  assumes "env_obeys R V" and "h < w_hubs w" and "handleMessage V h raw w = Ok w'"
  shows "R w w'"
  using assms obeysD [OF R_dispatch [OF assms(1)]]
  by (auto simp: handleMessage_def R_refl split: res.splits if_splits option.splits
      intro: R_namespace_connect)

text \<open>A connection is accepted: its hub is new, and its root socket is made for it.\<close>

lemma R_open_connection:
  assumes "open_connection V hs w = (h, p, w')"
  shows "R w w'"
proof -
  obtain w1 w2 where "newConnHub hs w = (h, w1)" "newSocket V h ''/'' hs w1 = (p, w2)" "w' = Of ''/'' w2"
    using assms by (auto simp: open_connection_def split: prod.splits)
  then show ?thesis using R_newConnHub R_newSocket R_Of R_trans by metis
qed

end

lemma open_connection_owned:
  assumes "open_connection V hs w = (h, p, w')"
  shows "owned w' h ''/'' p \<and> hb_sockets (w_hub w' h) = fmempty"
proof -
  obtain w1 where 1: "newConnHub hs w = (h, w1)" and w2: "\<exists>w2. newSocket V h ''/'' hs w1 = (p, w2) \<and> w' = Of ''/'' w2"
    using assms by (auto simp: open_connection_def split: prod.splits)
  then obtain w2 where 2: "newSocket V h ''/'' hs w1 = (p, w2)" and w': "w' = Of ''/'' w2" by blast
  have "w_socket (Of n w2) = w_socket w2" "w_sockets (Of n w2) = w_sockets w2" "w_hubs (Of n w2) = w_hubs w2"
    "w_hub (Of n w2) = w_hub w2" "n |\<in>| fmdom (sv_namespaces (Of n w2))" for n
    by (auto simp: Of_def fmdomI split: option.split)
  then show ?thesis using newConnHub_sel [OF 1] newSocket_sel [OF 2] by (simp add: owned_def w')
qed

end
