(* ===== verification/Server_Invariant.thy ===== *)
theory Server_Invariant
  imports Server_Laws
begin

text \<open>
  The invariant of the server's store, the two laws every operation obeys (the invariant is kept, members
  are retained), what closing a connection does, the steps the goroutines of a server take, in any
  order, and what holds in every state they reach.
\<close>

subsection \<open>The invariant\<close>

definition names_ok :: "world \<Rightarrow> bool" where
  "names_ok w \<longleftrightarrow> ''/'' |\<in>| fmdom (sv_namespaces w) \<and> (\<forall>nsp. ns_Name (ns_at w nsp) = nsp)"

text \<open>A member of a namespace is an allocated socket of that namespace, on an allocated hub.\<close>

definition members_ok :: "world \<Rightarrow> bool" where
  "members_ok w \<longleftrightarrow> (\<forall>nsp p. p |\<in>| ns_sockets (ns_at w nsp) \<longrightarrow>
     p < w_sockets w \<and> so_Nsp (w_socket w p) = nsp \<and> so_hub (w_socket w p) < w_hubs w)"

text \<open>A socket a hub dispatches to is a member of the namespace it is registered under, and on that hub.\<close>

definition hubs_ok :: "world \<Rightarrow> bool" where
  "hubs_ok w \<longleftrightarrow> (\<forall>h nsp p. fmlookup (hb_sockets (w_hub w h)) nsp = Some p \<longrightarrow>
     p |\<in>| ns_sockets (ns_at w nsp) \<and> so_hub (w_socket w p) = h)"

definition server_inv :: "world \<Rightarrow> bool" where
  "server_inv w \<longleftrightarrow> names_ok w \<and> members_ok w \<and> hubs_ok w"

lemma server_invD:
  assumes "server_inv w"
  shows "ns_Name (ns_at w nsp) = nsp" and "''/'' |\<in>| fmdom (sv_namespaces w)"
    and "p |\<in>| ns_sockets (ns_at w nsp) \<Longrightarrow> p < w_sockets w"
    and "p |\<in>| ns_sockets (ns_at w nsp) \<Longrightarrow> so_Nsp (w_socket w p) = nsp"
    and "p |\<in>| ns_sockets (ns_at w nsp) \<Longrightarrow> so_hub (w_socket w p) < w_hubs w"
    and "fmlookup (hb_sockets (w_hub w h)) nsp = Some p \<Longrightarrow> p |\<in>| ns_sockets (ns_at w nsp)"
    and "fmlookup (hb_sockets (w_hub w h)) nsp = Some p \<Longrightarrow> so_hub (w_socket w p) = h"
  using assms by (auto simp: server_inv_def names_ok_def members_ok_def hubs_ok_def)

lemma server_invI:
  assumes "''/'' |\<in>| fmdom (sv_namespaces w)" and "\<And>nsp. ns_Name (ns_at w nsp) = nsp"
    and "\<And>nsp p. p |\<in>| ns_sockets (ns_at w nsp) \<Longrightarrow>
      p < w_sockets w \<and> so_Nsp (w_socket w p) = nsp \<and> so_hub (w_socket w p) < w_hubs w"
    and "\<And>h nsp p. fmlookup (hb_sockets (w_hub w h)) nsp = Some p \<Longrightarrow>
      p |\<in>| ns_sockets (ns_at w nsp) \<and> so_hub (w_socket w p) = h"
  shows "server_inv w"
  using assms by (simp add: server_inv_def names_ok_def members_ok_def hubs_ok_def)

subsection \<open>The two laws\<close>

definition evolves :: "world \<Rightarrow> world \<Rightarrow> bool" where
  "evolves w w' \<longleftrightarrow> grows w w' \<and> (server_inv w \<longrightarrow> server_inv w')"

definition retains :: "world \<Rightarrow> world \<Rightarrow> bool" where
  "retains w w' \<longleftrightarrow> grows w w' \<and> (\<forall>nsp. ns_sockets (ns_at w nsp) |\<subseteq>| ns_sockets (ns_at w' nsp))"

text \<open>
  User code keeps the invariant, and takes no socket out of a namespace: the package exports no operation
  that does.
\<close>

definition env_lawful :: "env \<Rightarrow> bool" where
  "env_lawful V \<longleftrightarrow> env_obeys evolves V"

definition env_retains :: "env \<Rightarrow> bool" where
  "env_retains V \<longleftrightarrow> env_obeys retains V"

lemma retainsD: "retains w w' \<Longrightarrow> p |\<in>| ns_sockets (ns_at w nsp) \<Longrightarrow> p |\<in>| ns_sockets (ns_at w' nsp)"
  by (auto simp: retains_def)

lemma newSocket_inv:
  assumes "newSocket V h nsp hs w = (p, w')" and inv: "server_inv w"
  shows "server_inv w'"
proof -
  note w' = newSocket_sel [OF assms(1)]
  show ?thesis
  proof (rule server_invI)
    fix n q assume "q |\<in>| ns_sockets (ns_at w' n)"
    then have "q |\<in>| ns_sockets (ns_at w n)" by (simp add: w')
    with server_invD(3-5) [OF inv this] w'
    show "q < w_sockets w' \<and> so_Nsp (w_socket w' q) = n \<and> so_hub (w_socket w' q) < w_hubs w'" by auto
  next
    fix k n q assume "fmlookup (hb_sockets (w_hub w' k)) n = Some q"
    then have "fmlookup (hb_sockets (w_hub w k)) n = Some q" by (simp add: w')
    from server_invD(6,7) [OF inv this] server_invD(3) [OF inv, of q n] w'
    show "q |\<in>| ns_sockets (ns_at w' n) \<and> so_hub (w_socket w' q) = k" by auto
  qed (use server_invD(1,2) [OF inv] w' in simp_all)
qed

lemma newConnHub_inv:
  assumes "newConnHub hs w = (h, w')" and inv: "server_inv w"
  shows "server_inv w'"
proof -
  note w' = newConnHub_sel [OF assms(1)]
  show ?thesis
  proof (rule server_invI)
    fix n q assume "q |\<in>| ns_sockets (ns_at w' n)"
    then have "q |\<in>| ns_sockets (ns_at w n)" by (simp add: w')
    with server_invD(3-5) [OF inv this] w'
    show "q < w_sockets w' \<and> so_Nsp (w_socket w' q) = n \<and> so_hub (w_socket w' q) < w_hubs w'" by auto
  next
    fix k n q assume "fmlookup (hb_sockets (w_hub w' k)) n = Some q"
    then have "fmlookup (hb_sockets (w_hub w k)) n = Some q" using w'(6,7) by (cases "k = h") auto
    from server_invD(6,7) [OF inv this] w'
    show "q |\<in>| ns_sockets (ns_at w' n) \<and> so_hub (w_socket w' q) = k" by simp
  qed (use server_invD(1,2) [OF inv] w' in simp_all)
qed

lemma ns_at_Of [simp]: "ns_at (Of name w) = ns_at w"
  by (auto simp: Of_def ns_at_def fun_eq_iff split: option.split)

lemmas law_defs = grows_def server_inv_def names_ok_def members_ok_def hubs_ok_def

interpretation invariant_law: store_law evolves
proof unfold_locales
  fix w w' w'' assume "evolves w w'" "evolves w' w''"
  then show "evolves w w''" by (auto simp: evolves_def intro: grows_trans)
next
  fix h nsp p w assume "owned w h nsp p"
  then show "evolves w (register_socket h nsp p w)"
    by (auto simp: register_socket_def addSocket_def add_member_def evolves_def law_defs owned_def split: if_splits)
next
  fix V h nsp hs w p w' assume "newSocket V h nsp hs w = (p, w')"
  then show "evolves w w'"
    using newSocket_sel [OF \<open>newSocket V h nsp hs w = (p, w')\<close>] by (auto simp: evolves_def grows_def newSocket_inv)
next
  fix hs w h w' assume "newConnHub hs w = (h, w')"
  then show "evolves w w'"
    using newConnHub_sel [OF \<open>newConnHub hs w = (h, w')\<close>] by (auto simp: evolves_def grows_def newConnHub_inv)
next
  fix w name show "evolves w (Of name w)"
    by (auto simp: evolves_def law_defs) (auto simp: Of_def split: option.splits)
qed (auto simp: evolves_def law_defs)

interpretation member_law: store_law retains
proof unfold_locales
  fix w w' w'' assume "retains w w'" "retains w' w''"
  then show "retains w w''" unfolding retains_def using grows_trans fsubset_trans by blast
next
  fix V h nsp hs w p w' assume "newSocket V h nsp hs w = (p, w')"
  then show "retains w w'"
    using newSocket_sel [OF \<open>newSocket V h nsp hs w = (p, w')\<close>] by (auto simp: retains_def grows_def)
next
  fix hs w h w' assume "newConnHub hs w = (h, w')"
  then show "retains w w'"
    using newConnHub_sel [OF \<open>newConnHub hs w = (h, w')\<close>] by (auto simp: retains_def grows_def)
next
  fix w name show "retains w (Of name w)"
    by (auto simp: retains_def grows_def Of_def ns_at_def newNamespace_def split: option.splits)
qed (auto simp: retains_def grows_def register_socket_def addSocket_def add_member_def)

lemma env_laws: "env_lawful V \<Longrightarrow> env_obeys evolves V" "env_retains V \<Longrightarrow> env_obeys retains V"
  by (simp_all add: env_lawful_def env_retains_def)

subsection \<open>Closing\<close>

definition drop_member :: "sid \<Rightarrow> world \<Rightarrow> world" where
  "drop_member p w = (if fmlookup (sv_namespaces w) (so_Nsp (w_socket w p)) \<noteq> None
     then removeSocket (so_Nsp (w_socket w p)) p w else w)"

lemma drop_member_sel [simp]:
  "w_socket (drop_member p w) = w_socket w" "w_hub (drop_member p w) = w_hub w"
  "w_sockets (drop_member p w) = w_sockets w" "w_hubs (drop_member p w) = w_hubs w"
  "fmdom (sv_namespaces (drop_member p w)) = fmdom (sv_namespaces w)" "configuration (drop_member p w) = configuration w"
  "ns_Name (ns_at (drop_member p w) nsp) = ns_Name (ns_at w nsp)"
  by (auto simp: drop_member_def removeSocket_def remove_member_def fmdomI)

lemma drop_member_sockets:
  "ns_sockets (ns_at (drop_member p w) nsp)
    = ns_sockets (ns_at w nsp) |-| (if so_Nsp (w_socket w p) = nsp then {|p|} else {||})"
  by (auto simp: drop_member_def removeSocket_def remove_member_def ns_at_def newNamespace_def
      split: option.splits)

lemma fold_drop_member:
  "w_socket (fold drop_member ps w) = w_socket w \<and> w_hub (fold drop_member ps w) = w_hub w
   \<and> w_sockets (fold drop_member ps w) = w_sockets w \<and> w_hubs (fold drop_member ps w) = w_hubs w
   \<and> fmdom (sv_namespaces (fold drop_member ps w)) = fmdom (sv_namespaces w)
   \<and> configuration (fold drop_member ps w) = configuration w
   \<and> (\<forall>nsp. ns_Name (ns_at (fold drop_member ps w) nsp) = ns_Name (ns_at w nsp))
   \<and> (\<forall>nsp q. q |\<in>| ns_sockets (ns_at (fold drop_member ps w) nsp) \<longleftrightarrow>
        q |\<in>| ns_sockets (ns_at w nsp) \<and> \<not> (q \<in> set ps \<and> so_Nsp (w_socket w q) = nsp))"
  by (induction ps arbitrary: w) (auto simp: drop_member_sockets)

lemma handleClose_fold:
  "handleClose V h w = fold drop_member
     (map (\<lambda>nsp. the (fmlookup (hb_sockets (w_hub w h)) nsp)) (ev_rangeNames V w (fmdom (hb_sockets (w_hub w h)))))
     (upd_hub h (\<lambda>hb. hb\<lparr>hb_sockets := fmempty\<rparr>) w)"
  by (simp add: handleClose_def Let_def drop_member_def [abs_def])

lemma registered_range:
  assumes "env_ranges V"
  shows "set (map (\<lambda>nsp. the (fmlookup m nsp)) (ev_rangeNames V w (fmdom m))) = {p. \<exists>nsp. fmlookup m nsp = Some p}"
  using assms by (force simp: fmlookup_dom_iff image_iff)

text \<open>Closing removes exactly the sockets the hub dispatches to, from their namespaces and from the hub.\<close>

lemma handleClose_effect:
  assumes "env_ranges V" and "server_inv w"
  shows "w_socket (handleClose V h w) = w_socket w"
    and "hb_sockets (w_hub (handleClose V h w) k) = (if k = h then fmempty else hb_sockets (w_hub w k))"
    and "hb_calls (w_hub (handleClose V h w) k) = hb_calls (w_hub w k)"
    and "q |\<in>| ns_sockets (ns_at (handleClose V h w) nsp) \<longleftrightarrow>
      q |\<in>| ns_sockets (ns_at w nsp) \<and> fmlookup (hb_sockets (w_hub w h)) nsp \<noteq> Some q"
    and "evolves w (handleClose V h w)"
proof -
  define ps where "ps = map (\<lambda>nsp. the (fmlookup (hb_sockets (w_hub w h)) nsp))
      (ev_rangeNames V w (fmdom (hb_sockets (w_hub w h))))"
  have ps: "q \<in> set ps \<longleftrightarrow> (\<exists>nsp. fmlookup (hb_sockets (w_hub w h)) nsp = Some q)" for q
    unfolding ps_def registered_range [OF assms(1)] by simp
  let ?w = "upd_hub h (\<lambda>hb. hb\<lparr>hb_sockets := fmempty\<rparr>) w"
  have close: "handleClose V h w = fold drop_member ps ?w" by (simp add: handleClose_fold ps_def)
  note f = fold_drop_member [of ps ?w, folded close]
  show 1: "w_socket (handleClose V h w) = w_socket w" using f by simp
  show 2: "hb_sockets (w_hub (handleClose V h w) k) = (if k = h then fmempty else hb_sockets (w_hub w k))" for k
    using f by simp
  show "hb_calls (w_hub (handleClose V h w) k) = hb_calls (w_hub w k)" using f by simp
  show 3: "q |\<in>| ns_sockets (ns_at (handleClose V h w) nsp) \<longleftrightarrow>
      q |\<in>| ns_sockets (ns_at w nsp) \<and> fmlookup (hb_sockets (w_hub w h)) nsp \<noteq> Some q" for q nsp
  proof (cases "q |\<in>| ns_sockets (ns_at w nsp)")
    case True
    then have "so_Nsp (w_socket w q) = nsp" by (rule server_invD(4) [OF assms(2)])
    moreover have "n = nsp" if "fmlookup (hb_sockets (w_hub w h)) n = Some q" for n
      using server_invD(4) [OF assms(2) server_invD(6) [OF assms(2) that]] calculation by simp
    ultimately have "q \<in> set ps \<longleftrightarrow> fmlookup (hb_sockets (w_hub w h)) nsp = Some q"
      using ps by blast
    with True f \<open>so_Nsp (w_socket w q) = nsp\<close> show ?thesis by simp
  qed (use f in simp)
  have "server_inv (handleClose V h w)"
  proof (rule server_invI)
    fix k nsp p assume k: "fmlookup (hb_sockets (w_hub (handleClose V h w) k)) nsp = Some p"
    then have "k \<noteq> h" and k': "fmlookup (hb_sockets (w_hub w k)) nsp = Some p"
      by (auto simp: 2 split: if_splits)
    moreover have "fmlookup (hb_sockets (w_hub w h)) nsp \<noteq> Some p"
      using \<open>k \<noteq> h\<close> server_invD(7) [OF assms(2) k'] server_invD(7) [OF assms(2), of h nsp p] by auto
    ultimately show "p |\<in>| ns_sockets (ns_at (handleClose V h w) nsp) \<and> so_hub (w_socket (handleClose V h w) p) = k"
      using server_invD(6,7) [OF assms(2) k'] by (simp add: 1 3)
  next
    fix nsp p assume "p |\<in>| ns_sockets (ns_at (handleClose V h w) nsp)"
    then have "p |\<in>| ns_sockets (ns_at w nsp)" by (simp add: 3)
    from server_invD(3-5) [OF assms(2) this] f
    show "p < w_sockets (handleClose V h w) \<and> so_Nsp (w_socket (handleClose V h w) p) = nsp
        \<and> so_hub (w_socket (handleClose V h w) p) < w_hubs (handleClose V h w)" by simp
  qed (use f server_invD(1,2) [OF assms(2)] in simp_all)
  then show "evolves w (handleClose V h w)" using f by (simp add: evolves_def grows_def)
qed

subsection \<open>Steps\<close>

text \<open>
  What the goroutines of a server do, one step at a time and in any order. A middleware may call \<open>next\<close>
  at once or at any later time, so a chain may go on in a step of its own, from any of its middlewares
  (\<open>chain\<close>: with none left, the socket is accepted) or be refused in one (\<open>refuse\<close>); this covers the root
  chain, which runs beside the read loop, and the event chains of sockets (\<open>event_chain\<close>, \<open>event_refuse\<close>).
  A handler may keep its acknowledgement function and call it later (\<open>acknowledge\<close>). A connection is
  accepted, a message is handled, a connection closes; user code emits, joins, leaves, registers things,
  or closes the server. The activity names the connection whose read loop ends.
\<close>

datatype activity = Closing hid | Working

inductive server_step :: "env \<Rightarrow> activity \<Rightarrow> world \<Rightarrow> world \<Rightarrow> bool" for V where
  accept: "open_connection V hs w = (h, p, w') \<Longrightarrow> server_step V Working w w'"
| chain: "owned w h nsp p \<Longrightarrow>
    run_chain (\<lambda>m. ev_connMiddleware V m p) (connected V h nsp p ex True)
      (reject_connection V nsp p (connected V h nsp p ex)) ms w = Ok w' \<Longrightarrow> server_step V Working w w'"
| refuse: "owned w h nsp p \<Longrightarrow>
    reject_connection V nsp p (connected V h nsp p ex) e w = Ok w' \<Longrightarrow> server_step V Working w w'"
| message: "h < w_hubs w \<Longrightarrow> handleMessage V h raw w = Ok w' \<Longrightarrow> server_step V Working w w'"
| event_chain: "run_chain (ev_socketMiddleware V) (with_packet (\<lambda>packet. invokeHandler V p packet ackID))
      (\<lambda>e. with_packet (\<lambda>packet. reject_event V p ackID e)) ms (packet, w) = Ok (packet', w') \<Longrightarrow>
    server_step V Working w w'"
| event_refuse: "reject_event V p ackID e w = Ok w' \<Longrightarrow> server_step V Working w w'"
| acknowledge: "ack_function V p event ackID resp w = Ok w' \<Longrightarrow> server_step V Working w w'"
| close: "h < w_hubs w \<Longrightarrow> server_step V (Closing h) w (handleClose V h w)"
| emit: "emitExcluding V nsp event payload ex w = Ok w' \<Longrightarrow> server_step V Working w w'"
| room: "toExcluding V nsp room event payload ex w = Ok w' \<Longrightarrow> server_step V Working w w'"
| reply: "socket_Emit V p event payload w = Ok w' \<Longrightarrow> server_step V Working w w'"
| join: "server_step V Working w (Join p room w)"
| leave: "server_step V Working w (Leave p room w)"
| namespace: "server_step V Working w (Of name w)"
| schema: "server_step V Working w (ns_Schema nsp schemas w)"
| gate: "server_step V Working w (ns_Use nsp mw w)"
| listen: "server_step V Working w (ns_OnConnection nsp f w)"
| handler: "server_step V Working w (socket_On p event k w)"
| guard: "server_step V Working w (socket_Use p mw w)"
| shutdown: "server_step V Working w (snd (server_Close (ev_ext V) w))"

inductive reachable :: "env \<Rightarrow> config \<Rightarrow> world \<Rightarrow> bool" for V cfg where
  start: "reachable V cfg (New (ev_ext V) cfg)"
| step: "reachable V cfg w \<Longrightarrow> server_step V a w w' \<Longrightarrow> reachable V cfg w'"

text \<open>
  The steps of a server in which connection \<open>h\<close> does not close: those before its read loop ends, and those
  after, since the loop ends once and its deferred close runs once.
\<close>

definition continues :: "env \<Rightarrow> hid \<Rightarrow> world \<Rightarrow> world \<Rightarrow> bool" where
  "continues V h = rtranclp (\<lambda>w w'. \<exists>a. a \<noteq> Closing h \<and> server_step V a w w')"

lemma continues_refl [simp]: "continues V h w w"
  by (simp add: continues_def)

lemma continues_step: "continues V h w w' \<Longrightarrow> server_step V a w' w'' \<Longrightarrow> a \<noteq> Closing h \<Longrightarrow> continues V h w w''"
  unfolding continues_def by (rule rtranclp.rtrancl_into_rtrancl) auto

lemma reachable_continues:
  assumes "continues V h w w'" and "reachable V cfg w"
  shows "reachable V cfg w'"
  using assms unfolding continues_def
  by (induction rule: rtranclp_induct) (auto intro: reachable.step)

lemma New_inv: "server_inv (New E cfg)"
  by (rule server_invI)
     (auto simp: New_def Of_def ns_at_def newNamespace_def blank_hub_def split: if_splits option.splits)

text \<open>A step that is not a close obeys every law that user code obeys.\<close>

context store_law begin

lemma R_server_Close:
  assumes "\<And>w. R w (w\<lparr>sv_listening := False\<rparr>)"
  shows "R w (snd (server_Close E w))"
  by (simp add: server_Close_def assms R_refl)

lemma R_working:
  assumes "server_step V a w w'" and "a = Working" and V: "env_obeys R V" "env_ranges V"
    and "\<And>w. R w (w\<lparr>sv_listening := False\<rparr>)"
  shows "R w w'"
  using assms(1,2)
proof (cases rule: server_step.cases)
  case (accept hs h p)
  then show ?thesis using R_open_connection by blast
next
  case (chain h nsp p ex ms)
  then show ?thesis using R_connection_chain [OF V(1)] by blast
next
  case (refuse h nsp p ex e)
  then show ?thesis using keeps_stepD [OF keeps_reject_connection [OF V(1)] R_refl] by blast
next
  case (message h raw)
  then show ?thesis using R_handleMessage [OF V(1)] by blast
next
  case (event_chain p ackID ms packet packet')
  then show ?thesis using R_event_chain [OF V(1)] by blast
next
  case (event_refuse p ackID e)
  then show ?thesis using obeysD [OF R_reject_event] by blast
next
  case (acknowledge p event ackID resp)
  then show ?thesis using obeysD [OF R_ack] by blast
next
  case (emit nsp event payload ex)
  then show ?thesis using obeysD [OF R_emit(1) [OF V(2)]] by blast
next
  case (room nsp room event payload ex)
  then show ?thesis using obeysD [OF R_emit(2) [OF V(2)]] by blast
next
  case (reply p event payload)
  then show ?thesis using obeysD [OF R_socket_Emit] by blast
next
  case shutdown
  then show ?thesis using R_server_Close assms(5) by blast
qed (use R_api in simp_all)

end

lemma listening_laws:
  "evolves w (w\<lparr>sv_listening := False\<rparr>)" "retains w (w\<lparr>sv_listening := False\<rparr>)"
  by (simp_all add: evolves_def retains_def law_defs ns_at_def)

lemma server_step_evolves:
  assumes "server_step V a w w'" and "env_lawful V" and "env_ranges V" and "server_inv w"
  shows "evolves w w'"
proof (cases a)
  case (Closing h)
  with assms show ?thesis using handleClose_effect(5) by (auto elim: server_step.cases)
next
  case Working
  with invariant_law.R_working [OF assms(1)] assms env_laws listening_laws show ?thesis by blast
qed

lemma reachable_evolves:
  "reachable V cfg w \<Longrightarrow> env_lawful V \<Longrightarrow> env_ranges V \<Longrightarrow> evolves (New (ev_ext V) cfg) w"
proof (induction rule: reachable.induct)
  case (step w a w')
  then have "server_inv w" using New_inv by (simp add: evolves_def)
  with step show ?case using server_step_evolves invariant_law.R_trans by blast
qed (rule invariant_law.R_refl)

lemma reachable_inv:
  "reachable V cfg w \<Longrightarrow> env_lawful V \<Longrightarrow> env_ranges V \<Longrightarrow> server_inv w"
  using reachable_evolves New_inv by (auto simp: evolves_def)

text \<open>The configuration of a server never changes.\<close>

lemma reachable_config:
  assumes "reachable V cfg w" and "env_lawful V" and "env_ranges V"
  shows "sv_allowedOrigins w = sv_allowedOrigins (New (ev_ext V) cfg)"
  using reachable_evolves [OF assms] by (simp add: evolves_def grows_def)

text \<open>
  A member on a connection stays one as long as that connection does not close: the closing of another
  removes only the sockets on that other connection.
\<close>

lemma handleClose_other:
  assumes "env_ranges V" and "server_inv w" and "so_hub (w_socket w p) \<noteq> h"
    and "p |\<in>| ns_sockets (ns_at w nsp)"
  shows "p |\<in>| ns_sockets (ns_at (handleClose V h w) nsp)"
  using handleClose_effect(4) [OF assms(1,2)] server_invD(7) [OF assms(2), of h nsp p] assms(3,4) by auto

lemma continues_member:
  assumes "continues V h w w'" and V: "env_lawful V" "env_retains V" "env_ranges V"
    and "server_inv w" and "p |\<in>| ns_sockets (ns_at w nsp)" and "so_hub (w_socket w p) = h"
  shows "server_inv w' \<and> p |\<in>| ns_sockets (ns_at w' nsp) \<and> so_hub (w_socket w' p) = h"
  using assms(1) unfolding continues_def
proof (induction rule: rtranclp_induct)
  case base
  with assms show ?case by simp
next
  case (step u v)
  then obtain a where a: "a \<noteq> Closing h" "server_step V a u v" by blast
  from server_step_evolves [OF a(2) V(1,3)] step have ev: "evolves u v" by blast
  then have inv: "server_inv v" using step by (simp add: evolves_def)
  have "p < w_sockets u" using server_invD(3) step by blast
  with ev step have hub: "so_hub (w_socket v p) = h" by (simp add: evolves_def grows_def)
  have "p |\<in>| ns_sockets (ns_at v nsp)"
  proof (cases a)
    case (Closing k)
    with a have v: "v = handleClose V k u" and "k \<noteq> h" by (auto elim: server_step.cases)
    with step have "so_hub (w_socket u p) \<noteq> k" by simp
    then show ?thesis unfolding v using step by (intro handleClose_other V) blast+
  next
    case Working
    with member_law.R_working [OF a(2)] V env_laws listening_laws have "retains u v" by blast
    with step show ?thesis using retainsD by blast
  qed
  with inv hub show ?case by blast
qed

lemma continues_grows:
  assumes "continues V h w w'" and V: "env_lawful V" "env_ranges V" and "server_inv w"
  shows "evolves w w'"
  using assms(1) unfolding continues_def
proof (induction rule: rtranclp_induct)
  case base
  show ?case by (rule invariant_law.R_refl)
next
  case (step u v)
  then have "server_inv u" using assms(4) by (simp add: evolves_def)
  with step server_step_evolves [OF _ V] show ?case using invariant_law.R_trans by blast
qed

end
