(* ===== verification/Reference_Libs.thy ===== *)
theory Reference_Libs
  imports Schema_Wire "HOL-Library.List_Lexorder" "HOL-Library.Char_ord"
begin

text \<open>
  A concrete instance of the library parameters, used only to show that the laws assumed of them can
  hold together and to evaluate examples: msgpack's own formats for nil, booleans, bytes, strings and
  string-keyed maps (the fixed form for short lengths, the 32-bit form for the rest), and DEFLATE with
  stored data only, taken as the identity.
\<close>

subsection \<open>Length headers\<close>

definition len_hdr :: "nat \<Rightarrow> nat \<Rightarrow> byte \<Rightarrow> nat \<Rightarrow> byte list" where
  "len_hdr lo lim wide n =
     (if n < lim then [word_of_nat (lo + n)] else wide # be32 (word_of_nat n))"

definition read_hdr :: "nat \<Rightarrow> nat \<Rightarrow> byte \<Rightarrow> byte list \<Rightarrow> (nat \<times> byte list) res" where
  "read_hdr lo lim wide dec =
     (case dec of
        [] \<Rightarrow> Err (External ''EOF'')
      | c # r \<Rightarrow>
          if lo \<le> unat c \<and> unat c < lo + lim then Ok (unat c - lo, r)
          else if c = wide \<and> 4 \<le> length r then Ok (unat (of_be32 r), drop 4 r)
          else Err (External ''invalid code''))"

lemma read_len_hdr:
  assumes "lo + lim \<le> 256" and "lo + lim \<le> unat wide \<or> unat wide < lo" and "n < 2 ^ 32"
  shows "read_hdr lo lim wide (len_hdr lo lim wide n @ rest) = Ok (n, rest)"
proof (cases "n < lim")
  case True
  then have "unat (word_of_nat (lo + n) :: byte) = lo + n"
    using assms(1) by (intro unat_word_small) simp
  with True show ?thesis by (simp add: len_hdr_def read_hdr_def)
next
  case False
  have "unat (word_of_nat n :: 32 word) = n" using assms(3) by (intro unat_word_small) simp
  with False assms(2) show ?thesis by (auto simp: len_hdr_def read_hdr_def)
qed

lemma hd_len_hdr:
  assumes "lo + lim \<le> 256"
  shows "\<exists>c r. len_hdr lo lim wide n = c # r \<and> ((lo \<le> unat c \<and> unat c < lo + lim) \<or> c = wide)"
proof (cases "n < lim")
  case True
  then have "unat (word_of_nat (lo + n) :: byte) = lo + n"
    using assms by (intro unat_word_small) simp
  with True show ?thesis by (simp add: len_hdr_def)
qed (simp add: len_hdr_def)

lemma read_hdr_consumes: "consumes (read_hdr lo lim wide)"
  by (auto simp: consumes_def read_hdr_def split: list.splits)

subsection \<open>Tokens\<close>

definition ref_EncodeString :: "gostring \<Rightarrow> byte list res" where
  "ref_EncodeString s = Ok (len_hdr 0xa0 32 0xdb (length s) @ str_bytes s)"

definition ref_DecodeString :: "byte list \<Rightarrow> (gostring \<times> byte list) res" where
  "ref_DecodeString dec =
     andThen (read_hdr 0xa0 32 0xdb dec) (\<lambda>(n, r).
       if n \<le> length r then Ok (bytes_str (take n r), drop n r) else Err (External ''EOF''))"

definition ref_DecodeLen :: "nat \<Rightarrow> byte \<Rightarrow> byte list \<Rightarrow> (int \<times> byte list) res" where
  "ref_DecodeLen lo wide dec = andThen (read_hdr lo 16 wide dec) (\<lambda>(n, r). Ok (int n, r))"

definition ref_PeekCode :: "byte list \<Rightarrow> byte res" where
  "ref_PeekCode dec = (case dec of [] \<Rightarrow> Err (External ''EOF'') | c # r \<Rightarrow> Ok c)"

definition ref_tokens :: externals where
  "ref_tokens =
     \<lparr>mp_Marshal = (\<lambda>v. Err (External ''unsupported'')), mp_Unmarshal = (\<lambda>b. Ok (VBytes b)),
      mp_EncodeString = ref_EncodeString,
      mp_EncodeArrayLen = (\<lambda>n. Ok (len_hdr 0x90 16 0xdd (nat n))),
      mp_EncodeMapLen = (\<lambda>n. Ok (len_hdr 0x80 16 0xdf (nat n))),
      mp_PeekCode = ref_PeekCode, mp_DecodeString = ref_DecodeString,
      mp_DecodeArrayLen = ref_DecodeLen 0x90 0xdd, mp_DecodeMapLen = ref_DecodeLen 0x80 0xdf,
      mp_IsString = (\<lambda>c. 0xa0 \<le> unat c \<and> unat c < 0xc0 \<or> c \<in> {0xd9, 0xda, 0xdb}),
      mp_IsBin = (\<lambda>c. c \<in> {0xc4, 0xc5, 0xc6}),
      mp_IsFixedArray = (\<lambda>c. 0x90 \<le> unat c \<and> unat c < 0xa0),
      mp_IsFixedMap = (\<lambda>c. 0x80 \<le> unat c \<and> unat c < 0x90),
      mp_Array16 = 0xdc, mp_Array32 = 0xdd, mp_Map16 = 0xde, mp_Map32 = 0xdf,
      fl_NewWriter = None, fl_Write = (\<lambda>d. None), fl_Close = Ok, fl_ReadAll = Ok,
      oor_u64_f32 = (\<lambda>x. 0), oor_u64_f64 = (\<lambda>x. 0), oor_i64_f32 = (\<lambda>x. 0), oor_i64_f64 = (\<lambda>x. 0),
      net_Listen = (\<lambda>port. None), http_Close = None\<rparr>"

subsection \<open>Values\<close>

definition marshal_entries :: "(gostring, byte list res) fmap \<Rightarrow> byte list res" where
  "marshal_entries m =
     (let ks = sorted_list_of_fset (fmdom m) in
      foldm (\<lambda>k out. andThen (ref_EncodeString k) (\<lambda>kb. andThen (the (fmlookup m k)) (\<lambda>vb. Ok (out @ kb @ vb))))
        ks (len_hdr 0x80 16 0xdf (length ks)))"

primrec ref_Marshal :: "goval \<Rightarrow> byte list res" where
  "ref_Marshal VNil = Ok [0xc0]"
| "ref_Marshal (VBool b) = Ok [if b then 0xc3 else 0xc2]"
| "ref_Marshal (VUint8 w) = Ok [0xcc, w]"
| "ref_Marshal (VString s) = ref_EncodeString s"
| "ref_Marshal (VMap m) = marshal_entries (fmmap ref_Marshal m)"
| "ref_Marshal (VWireDef d) = writeSchemaDef ref_tokens d []"
| "ref_Marshal (VInt w) = Err (External ''unsupported'')"
| "ref_Marshal (VInt8 w1) = Err (External ''unsupported'')"
| "ref_Marshal (VInt16 w2) = Err (External ''unsupported'')"
| "ref_Marshal (VInt32 w3) = Err (External ''unsupported'')"
| "ref_Marshal (VInt64 w4) = Err (External ''unsupported'')"
| "ref_Marshal (VUint w5) = Err (External ''unsupported'')"
| "ref_Marshal (VUint16 w6) = Err (External ''unsupported'')"
| "ref_Marshal (VUint32 w7) = Err (External ''unsupported'')"
| "ref_Marshal (VUint64 w8) = Err (External ''unsupported'')"
| "ref_Marshal (VFloat32 f) = Err (External ''unsupported'')"
| "ref_Marshal (VFloat64 f1) = Err (External ''unsupported'')"
| "ref_Marshal (VBytes b1) = Err (External ''unsupported'')"
| "ref_Marshal (VList xs) = Err (External ''unsupported'')"
| "ref_Marshal (VOther n) = Err (External ''unsupported'')"

definition ref_Unmarshal :: "byte list \<Rightarrow> goval res" where
  "ref_Unmarshal b =
     (if b = [0xc0] then Ok VNil
      else if b = [0xc2] then Ok (VBool False)
      else if b = [0xc3] then Ok (VBool True)
      else (case b of
          [c, w] \<Rightarrow> if c = 0xcc then Ok (VUint8 w) else Ok (VBytes b)
        | _ \<Rightarrow> (case ref_DecodeString b of Ok (s, r) \<Rightarrow> Ok (if r = [] then VString s else VBytes b)
               | _ \<Rightarrow> Ok (VBytes b))))"

definition ref_ext :: externals where
  "ref_ext = ref_tokens\<lparr>mp_Marshal := ref_Marshal, mp_Unmarshal := ref_Unmarshal\<rparr>"

subsection \<open>The laws hold\<close>

lemma ref_tokens_laws: "msgpack_tokens ref_tokens"
proof -
  have s: "ref_DecodeString (b @ rest) = Ok (s, rest) \<and> (\<exists>c. ref_PeekCode (b @ rest) = Ok c \<and> string_code ref_tokens c)"
    if "length s < 2 ^ 32" "ref_EncodeString s = Ok b" for s b rest
  proof -
    have b: "b = len_hdr 160 32 219 (length s) @ str_bytes s" using that by (simp add: ref_EncodeString_def)
    then show ?thesis
      using read_len_hdr [of 160 32 219 "length s" "str_bytes s @ rest"] that(1)
        hd_len_hdr [of 160 32 219 "length s"]
      by (auto simp: ref_DecodeString_def ref_PeekCode_def string_code_def ref_tokens_def)
  qed
  have l: "ref_DecodeLen lo wide (len_hdr lo 16 wide (nat n) @ rest) = Ok (n, rest) \<and>
      (\<exists>c. ref_PeekCode (len_hdr lo 16 wide (nat n) @ rest) = Ok c
        \<and> ((lo \<le> unat c \<and> unat c < lo + 16) \<or> c = wide))"
    if "lo + 16 \<le> 256" "lo + 16 \<le> unat wide" "0 \<le> n" "n < 2 ^ 32" for lo wide n rest
    using read_len_hdr [of lo 16 wide "nat n" rest] hd_len_hdr [of lo 16 wide "nat n"] that
    by (auto simp: ref_DecodeLen_def ref_PeekCode_def)
  show ?thesis
    unfolding msgpack_tokens_def
    using s l [of 144 221] l [of 128 223]
    by (fastforce simp: ref_tokens_def string_code_def array_code_def map_code_def)
qed

lemma writeSchemaDef_cong:
  assumes "mp_EncodeString E = mp_EncodeString E'" "mp_EncodeArrayLen E = mp_EncodeArrayLen E'"
    "mp_EncodeMapLen E = mp_EncodeMapLen E'"
  shows "writeSchemaDef E d out = writeSchemaDef E' d out"
  using assms
proof (induction E d out rule: writeSchemaDef.induct)
  case (3 E fs out)
  then show ?case
    by (auto intro!: andThen_cong foldm_cong split: field_def.split)
qed (auto intro: andThen_cong)

lemma ref_ext_tokens: "msgpack_tokens ref_ext"
  using ref_tokens_laws
  by (simp add: ref_ext_def msgpack_tokens_def string_code_def array_code_def map_code_def)

lemma ref_ext_decodes: "msgpack_decodes ref_ext"
  by (auto simp: msgpack_decodes_def ref_ext_def ref_Unmarshal_def split: res.splits list.splits)

lemma ref_ext_flate: "flate_inverts ref_ext"
  by (simp add: flate_inverts_def ref_ext_def ref_tokens_def)

lemma ref_ext_consumes: "msgpack_consumes ref_ext"
proof -
  note rc = read_hdr_consumes [unfolded consumes_def]
  have "consumes ref_DecodeString"
    unfolding consumes_def
  proof (intro allI conjI impI)
    fix dec
    show "no_panic (ref_DecodeString dec)"
      using rc [of 160 32 219] by (auto simp: ref_DecodeString_def no_panic_iff)
    fix v dec' assume "ref_DecodeString dec = Ok (v, dec')"
    then show "length dec' < length dec"
      using rc [of 160 32 219] by (fastforce simp: ref_DecodeString_def split: if_splits)
  qed
  moreover have "consumes (ref_DecodeLen lo wide)" for lo wide
    using rc [of lo 16 wide] by (fastforce simp: consumes_def ref_DecodeLen_def no_panic_iff)
  moreover have "no_panic (ref_PeekCode dec)" for dec
    by (simp add: ref_PeekCode_def split: list.split)
  ultimately show ?thesis by (simp add: msgpack_consumes_def ref_ext_def ref_tokens_def)
qed

lemma ref_ext_lengths: "msgpack_lengths ref_ext"
  by (auto simp: msgpack_lengths_def ref_ext_def ref_tokens_def ref_DecodeLen_def)

lemma ref_ext_maps: "msgpack_maps ref_ext"
proof -
  have 1: "ref_Marshal (VWireDef d) = EncodeMsgpack ref_ext d []" for d
    by (simp add: EncodeMsgpack_def ref_ext_def) (rule writeSchemaDef_cong; simp)
  have 2: "\<exists>ks hb ps. distinct ks \<and> set ks = fset (fmdom m) \<and>
      Ok (len_hdr 128 16 223 (length ks)) = Ok hb \<and>
      list_all2 (\<lambda>k p. \<exists>kb vb. ref_EncodeString k = Ok kb \<and>
        ref_Marshal (the (fmlookup m k)) = Ok vb \<and> p = kb @ vb) ks ps \<and> bs = hb @ concat ps"
    if m: "ref_Marshal (VMap m) = Ok bs" for m bs
  proof -
    let ?ks = "sorted_list_of_fset (fmdom m)"
    have ks: "distinct ?ks" "set ?ks = fset (fmdom m)"
      by (simp_all add: sorted_list_of_fset.rep_eq)
    have val: "the (fmlookup (fmmap ref_Marshal m) k) = ref_Marshal (the (fmlookup m k))"
      if "k \<in> set ?ks" for k
      using that ks(2) by (auto simp: fmlookup_dom_iff)
    from m have loop: "foldm (\<lambda>k out. andThen (ref_EncodeString k)
        (\<lambda>kb. andThen (the (fmlookup (fmmap ref_Marshal m) k)) (\<lambda>vb. Ok (out @ kb @ vb))))
        ?ks (len_hdr 128 16 223 (length ?ks)) = Ok bs"
      by (simp add: marshal_entries_def Let_def)
    have "\<exists>ps. list_all2 (\<lambda>k p. \<exists>kb vb. ref_EncodeString k = Ok kb \<and>
        ref_Marshal (the (fmlookup m k)) = Ok vb \<and> p = kb @ vb) ?ks ps
        \<and> bs = len_hdr 128 16 223 (length ?ks) @ concat ps"
      by (rule foldm_parts [OF _ loop]) (auto simp: val)
    with ks show ?thesis by blast
  qed
  show ?thesis
    unfolding msgpack_maps_def
    using 1 2 by (simp add: ref_ext_def ref_tokens_def)
qed

lemmas ref_ext_laws = ref_ext_tokens ref_ext_decodes ref_ext_flate ref_ext_consumes ref_ext_maps

end
