(* ===== verification/Example_Server.thy ===== *)
theory Example_Server
  imports Server_Invariant Reference_Libs
begin

text \<open>
  \<open>examples/server/main.go\<close>: the repository's example of a server program, with a namespace behind a
  token check, rooms, a schema and acknowledgements. It is an environment of the model, and the concrete
  instance on which hypotheses about user code are shown to hold. Log lines are left out.

  A closure that captures a socket is identified by the socket: the handlers of socket \<open>p\<close> are
  \<open>2 * p\<close> (\<open>cluster:provision\<close>) and \<open>2 * p + 1\<close> (the schema's event).
\<close>

definition syncSchema :: schema where
  "syncSchema = \<lparr>sc_Name = ''SYNC_TEST'', sc_Definition = Object [F ''id'' (STag Uint32_t), F ''label'' (STag String_t)]\<rparr>"

definition gateway :: gostring where
  "gateway = ''/secure-gateway''"

definition auth_failure :: gerror where
  "auth_failure = External ''ERR_AUTH_FAILURE''"

definition check_token :: "sid \<Rightarrow> world middleware" where
  "check_token p next w =
     (if header_Get (hs_Headers (so_Handshake (w_socket w p))) ''X-Auth-Token'' = ''enterprise-payload-passkey''
      then next None w else next (Some auth_failure) w)"

text \<open>A failed assertion gives the zero value; indexing a nil map gives nil.\<close>

definition at_key :: "goval \<Rightarrow> gostring \<Rightarrow> goval" where
  "at_key v key = field_value (toMap v) key"

text \<open>\<open>m, _ := payload.(map[string]interface{})\<close> passed on: the map, or a nil map.\<close>

definition as_map :: "goval \<Rightarrow> goval" where
  "as_map v = (case v of VMap m \<Rightarrow> VMap m | _ \<Rightarrow> VOther 0)"

definition call_ack :: "(goval \<Rightarrow> world step) option \<Rightarrow> goval \<Rightarrow> world step" where
  "call_ack ack resp w = (case ack of None \<Rightarrow> Ok w | Some a \<Rightarrow> a resp w)"

definition text_map :: "gostring \<Rightarrow> goval \<Rightarrow> goval" where
  "text_map k v = VMap (fmap_of_list [(k, v)])"

text \<open>
  The environment is recursive in the program (its handlers emit), so the operations are first given the
  part of the environment they use.
\<close>

definition base_env :: "externals \<Rightarrow> env" where
  "base_env E =
     \<lparr>ev_ext = E, ev_connMiddleware = (\<lambda>m. check_token),
      ev_connHandler = (\<lambda>f p. Ok), ev_socketMiddleware = (\<lambda>m next. next None),
      ev_eventHandler = (\<lambda>f payload ack. Ok),
      ev_Error = (\<lambda>e. case e of External s \<Rightarrow> s | _ \<Rightarrow> []),
      ev_rangeSockets = (\<lambda>w S. sorted_list_of_fset S), ev_rangeNames = (\<lambda>w S. sorted_list_of_fset S),
      ev_randRead = (\<lambda>w. Some (replicate 12 (word_of_nat (w_sockets w))))\<rparr>"

definition on_provision :: "externals \<Rightarrow> sid \<Rightarrow> goval \<Rightarrow> (goval \<Rightarrow> world step) option \<Rightarrow> world step" where
  "on_provision E p payload ack w =
     (let serverType = toStringVal (at_key (at_key (at_key payload ''endpoints'') ''createUser'') ''serverType'');
          w = Join p serverType w
      in andThen (Emitter_Emit (server_To (base_env E) ''GRPC'' [gateway] w) ''cluster:sync''
           (text_map ''status'' (VString ''provisioned'')) w)
         (call_ack ack (text_map ''status'' (VInt 200))))"

definition on_sync :: "externals \<Rightarrow> sid \<Rightarrow> goval \<Rightarrow> (goval \<Rightarrow> world step) option \<Rightarrow> world step" where
  "on_sync E p payload ack w =
     Emitter_Emit (socket_To (base_env E) p ''GRPC'' w) ''cluster:sync'' (as_map payload) w"

definition on_connection :: "sid \<Rightarrow> world step" where
  "on_connection p w =
     Ok (socket_OnSchema p syncSchema (2 * p + 1) (socket_On p ''cluster:provision'' (2 * p) w))"

definition secure_env :: "externals \<Rightarrow> env" where
  "secure_env E = (base_env E)\<lparr>ev_connHandler := (\<lambda>f. on_connection),
     ev_eventHandler := (\<lambda>f. if even f then on_provision E (f div 2) else on_sync E (f div 2))\<rparr>"

definition secure_server :: "externals \<Rightarrow> world" where
  "secure_server E =
     ns_OnConnection gateway 0 (ns_Use gateway 0 (ns_Schema gateway [syncSchema] (Of gateway
       (New E \<lparr>cfg_Port = 5000, cfg_Serializers = None, cfg_UseSchemas = None, cfg_CORSOrigins = [],
          cfg_ReadBufferSize = 0, cfg_WriteBufferSize = 0\<rparr>))))"

subsection \<open>The example is a lawful environment\<close>

lemma ranges_sorted: "ranges (\<lambda>w S. sorted_list_of_fset S)"
  by (simp add: ranges_def sorted_list_of_fset.rep_eq)

lemma base_env_ranges: "env_ranges (base_env E)"
  by (simp add: env_ranges_def base_env_def ranges_sorted)

lemma secure_env_ranges: "env_ranges (secure_env E)"
  by (simp add: env_ranges_def secure_env_def base_env_def ranges_sorted)

lemma check_token_keeps: "keeps_middleware I (check_token p)"
  by (auto simp: keeps_middleware_def keeps_step_def check_token_def)

text \<open>The example obeys every law of the store, since it only uses operations of the package.\<close>

context store_law begin

lemma on_provision_obeys:
  assumes "\<And>a resp. ack = Some a \<Longrightarrow> obeys R (a resp)"
  shows "obeys R (on_provision E p payload ack)"
  unfolding obeys_def
proof (intro allI impI)
  fix w w' assume "on_provision E p payload ack w = Ok w'"
  then obtain room w1 where emit: "Emitter_Emit (server_To (base_env E) ''GRPC'' [gateway] (Join p room w))
        ''cluster:sync'' (text_map ''status'' (VString ''provisioned'')) (Join p room w) = Ok w1"
    and ack: "call_ack ack (text_map ''status'' (VInt 200)) w1 = Ok w'"
    by (auto simp: on_provision_def Let_def)
  have "obeys R (Emitter_Emit (server_To (base_env E) ''GRPC'' [gateway] (Join p room w))
        ''cluster:sync'' (text_map ''status'' (VString ''provisioned'')))"
    by (rule R_emitter)
       (auto simp: server_To_def ns_To_def Let_def split: option.splits intro: R_emit(2) [OF base_env_ranges])
  from obeysD [OF this emit] have "R w w1" using R_rooms(1) R_trans by blast
  moreover have "R w1 w'"
    using ack assms by (cases ack) (auto simp: call_ack_def R_refl dest: obeysD)
  ultimately show "R w w'" by (rule R_trans)
qed

lemma on_sync_obeys: "obeys R (on_sync E p payload ack)"
  unfolding obeys_def
proof (intro allI impI)
  fix w w' assume ok: "on_sync E p payload ack w = Ok w'"
  have "obeys R (Emitter_Emit (socket_To (base_env E) p ''GRPC'' w) ''cluster:sync'' (as_map payload))"
    by (rule R_emitter)
       (auto simp: socket_To_def Let_def obeys_def R_refl split: if_splits
         dest: obeysD [OF R_emit(2) [OF base_env_ranges]])
  from obeysD [OF this] ok show "R w w'" by (simp add: on_sync_def)
qed

lemma on_connection_obeys: "obeys R (on_connection p)"
  unfolding obeys_def on_connection_def socket_OnSchema_def
  using R_listeners(1) R_trans by blast

lemma secure_env_obeys: "env_obeys R (secure_env E)"
  unfolding env_obeys_def
proof (intro conjI allI impI)
  fix m p w show "keeps_middleware (R w) (ev_connMiddleware (secure_env E) m p)"
    by (simp add: secure_env_def base_env_def check_token_keeps)
next
  fix f p show "obeys R (ev_connHandler (secure_env E) f p)"
    by (simp add: secure_env_def on_connection_obeys)
next
  fix m w show "keeps_middleware (\<lambda>s. R w (snd s)) (ev_socketMiddleware (secure_env E) m)"
    by (simp add: secure_env_def base_env_def keeps_middleware_def)
next
  fix f payload and ack :: "(goval \<Rightarrow> world step) option" assume "\<forall>a resp. ack = Some a \<longrightarrow> obeys R (a resp)"
  then show "obeys R (ev_eventHandler (secure_env E) f payload ack)"
    by (auto simp: secure_env_def on_sync_obeys intro: on_provision_obeys)
qed

end

lemma secure_env_lawful: "env_lawful (secure_env E)" and secure_env_retains: "env_retains (secure_env E)"
  by (simp_all add: env_lawful_def env_retains_def invariant_law.secure_env_obeys member_law.secure_env_obeys)

text \<open>The token check is a middleware in the sense of the chain's contract.\<close>

definition token_verdict :: "sid \<Rightarrow> fid \<Rightarrow> world \<Rightarrow> world verdict" where
  "token_verdict p m w =
     (if header_Get (hs_Headers (so_Handshake (w_socket w p))) ''X-Auth-Token'' = ''enterprise-payload-passkey''
      then Passes w else Rejects auth_failure w)"

lemma token_behaves: "behaves (ev_connMiddleware (secure_env E) m p) w (token_verdict p m w)"
  by (simp add: behaves_def secure_env_def base_env_def check_token_def token_verdict_def)

interpretation secure_chain: middleware_chain "\<lambda>m. ev_connMiddleware (secure_env E) m p" finish reject "token_verdict p"
  for E p finish reject
  by unfold_locales (rule token_behaves)

end
