(* ===== verification/Protocol_Properties.thy ===== *)
theory Protocol_Properties
  imports Reference_Libs
begin

text \<open>
  The properties of the protocol package: the schema codec, the frame codec and the wire form of
  schema definitions, each with a concrete instance of its hypotheses.
\<close>

subsection \<open>Examples\<close>

text \<open>The schema and payload of the repository's first schema test.\<close>

definition user_schema :: schema where
  "user_schema = \<lparr>sc_Name = ''USER_TEST'', sc_Definition = Object
     [F ''id'' (STag Uint32_t), F ''name'' (STag String_t), F ''isActive'' (STag Boolean_t)]\<rparr>"

definition user_payload :: goval where
  "user_payload = VMap (fmap_of_list [(''id'', VInt 1045), (''name'', VString ''Ana''), (''isActive'', VBool True)])"

definition typed_payload :: goval where
  "typed_payload = VMap (fmap_of_list [(''id'', VUint32 1045), (''name'', VString ''Ana''), (''isActive'', VBool True)])"

lemma user_fields: "field_value (toMap user_payload) ''id'' = VInt 1045"
  "field_value (toMap user_payload) ''name'' = VString ''Ana''"
  "field_value (toMap user_payload) ''isActive'' = VBool True"
  by (simp_all add: user_payload_def field_value_def fmlookup_of_list)

lemma typed_fields: "field_value (toMap typed_payload) ''id'' = VUint32 1045"
  "field_value (toMap typed_payload) ''name'' = VString ''Ana''"
  "field_value (toMap typed_payload) ''isActive'' = VBool True"
  by (simp_all add: typed_payload_def field_value_def fmlookup_of_list)

definition user_bytes :: "byte list" where
  "user_bytes = [0, 0, 4, 21, 0, 0, 0, 3, 65, 110, 97, 1]"

lemma user_encodes: "schema_EncodePayload E user_schema user_payload = Ok user_bytes"
  by (simp add: EncodePayload_enc_spec user_schema_def builders user_fields length_prefixed_def
      str_bytes_def be32_def user_bytes_def)

lemma user_lens: "lens_ok E (sc_Definition user_schema) user_payload"
  by (simp add: user_schema_def builders user_fields)

subsection \<open>Schema payloads\<close>

text \<open>
  C1. The two passes of \<open>EncodePayload\<close> compute the documented positional layout, for every
  schema and every payload: the size pass announces exactly the layout's length, the write pass fills
  that buffer to its last byte and uses every queued value, and an unsupported definition or a msgpack
  failure is returned as the layout's error. No write is ever out of bounds.
\<close>

theorem encode_payload_layout:
  "schema_EncodePayload E s v = enc_spec E (sc_Definition s) v \<and>
   (case enc_spec E (sc_Definition s) v of
      Ok bs \<Rightarrow> \<exists>queue. computeSize E (sc_Definition s) v [] = Ok (length bs, queue) \<and>
        encodeValue E (sc_Definition s) v queue (replicate (length bs) 0, 0, 0)
          = Ok (bs, length bs, length queue)
    | Err e \<Rightarrow> computeSize E (sc_Definition s) v [] = Err e
    | Panic p \<Rightarrow> computeSize E (sc_Definition s) v [] = Panic p)"
proof (cases "enc_spec E (sc_Definition s) v")
  case (Ok bs)
  with two_passes [of E "sc_Definition s" v] obtain cs
    where "\<And>q. computeSize E (sc_Definition s) v q = Ok (length bs, q @ cs)"
      and "\<And>pre rest buf off. off + length bs \<le> length buf \<Longrightarrow>
        encodeValue E (sc_Definition s) v (pre @ cs @ rest) (buf, off, length pre)
          = Ok (overwrite buf off bs, off + length bs, length pre + length cs)"
    by (metis passes_agree_OkE)
  from this(1) this(2) [of 0 "replicate (length bs) 0" "[]" "[]"] Ok show ?thesis
    by (simp add: EncodePayload_enc_spec overwrite_all)
qed (use two_passes [of E "sc_Definition s" v] in
      \<open>simp_all add: EncodePayload_enc_spec passes_agree_def\<close>)

text \<open>
  C2. Whatever payload a schema encoded, decoding gives back what the wire carries of it: every
  integer wrapped to its field's width, missing fields and values of the wrong type as zero values.
  The bytes may be followed by others and the slice may have spare capacity.
\<close>

theorem schema_round_trip:
  assumes "msgpack_decodes E" and "schema_EncodePayload E s v = Ok bs"
    and "lens_ok E (sc_Definition s) v" and "sl_data b = bs @ rest"
  shows "schema_DecodePayload E s b = Ok (coerced E (sc_Definition s) v)"
  using assms by (rule DecodePayload_encoded)

theorem schema_round_trip_witness:
  "schema_DecodePayload ref_ext user_schema \<lparr>sl_data = user_bytes @ [7], sl_spare = [9]\<rparr>
    = Ok (coerced ref_ext (sc_Definition user_schema) user_payload)"
  by (rule schema_round_trip [OF ref_ext_decodes user_encodes user_lens]) simp

text \<open>
  C28. A payload of the types the README's table lists comes back unchanged.
\<close>

theorem typed_round_trip:
  assumes "msgpack_decodes E" and "typed E (sc_Definition s) v" and "lens_ok E (sc_Definition s) v"
  shows "\<exists>bs. schema_EncodePayload E s v = Ok bs \<and> schema_DecodePayload E s (full_slice bs) = Ok v"
proof -
  obtain bs where "schema_EncodePayload E s v = Ok bs"
    using enc_spec_typed [OF assms(2)] by (auto simp: EncodePayload_enc_spec)
  with DecodePayload_encoded [OF assms(1) this assms(3), of "full_slice bs" "[]"] show ?thesis
    using coerced_typed [OF assms(2)] by (simp add: full_slice_def)
qed

theorem typed_round_trip_witness:
  "\<exists>bs. schema_EncodePayload ref_ext user_schema typed_payload = Ok bs
    \<and> schema_DecodePayload ref_ext user_schema (full_slice bs) = Ok typed_payload"
proof (rule typed_round_trip [OF ref_ext_decodes])
  have "fmdom (fmap_of_list [(''id'', VUint32 1045), (''name'', VString ''Ana''), (''isActive'', VBool True)])
      = fset_of_list [''id'', ''name'', ''isActive'']"
    by (simp add: fmdom_fmap_of_list)
  then show "typed ref_ext (sc_Definition user_schema) typed_payload"
    using typed_fields by (simp add: user_schema_def builders typed_payload_def)
  show "lens_ok ref_ext (sc_Definition user_schema) typed_payload"
    by (simp add: user_schema_def builders typed_fields)
qed

text \<open>
  C19. A schema payload cut short anywhere, in a buffer with no spare capacity, does not decode to an
  error: the decoder panics (nothing in the read loops of the server or the client recovers).
\<close>

theorem truncated_payload_panics:
  assumes "msgpack_decodes E" and "schema_EncodePayload E s v = Ok bs"
    and "lens_ok E (sc_Definition s) v" and "n < length bs"
  shows "\<exists>p. schema_DecodePayload E s (full_slice (take n bs)) = Panic p"
  using truncated_panics [OF assms(1) _ assms(3,4)] assms(2)
  by (auto simp: EncodePayload_enc_spec schema_DecodePayload_def)

theorem truncated_payload_panics_witness:
  "\<exists>p. schema_DecodePayload ref_ext user_schema (full_slice (take 11 user_bytes)) = Panic p"
  by (rule truncated_payload_panics [OF ref_ext_decodes user_encodes user_lens])
     (simp add: user_bytes_def)

text \<open>
  C33. Whatever the bytes are, a decode that returns has read forwards and inside the slice's capacity.
\<close>

theorem decode_reads_within_capacity:
  assumes "decodeValue E def b off = Ok (v, off')" and "off \<le> sl_cap b"
  shows "off \<le> off' \<and> off' \<le> sl_cap b"
  using withinD [OF decodeValue_within assms(1)] assms(2) by simp

text \<open>A string whose length runs past the five bytes received: its decode ends in the spare bytes, inside the capacity.\<close>

theorem decode_reads_within_capacity_witness:
  "\<exists>v off'. decodeValue ref_ext (STag String_t) \<lparr>sl_data = [0, 0, 0, 4, 65], sl_spare = [66, 67, 68, 69]\<rparr> 0 = Ok (v, off')
    \<and> 5 < off' \<and> off' \<le> 9"
proof -
  let ?b = "\<lparr>sl_data = [0, 0, 0, 4, 65], sl_spare = [66, 67, 68, 69]\<rparr>"
  have "\<exists>v off'. decodeValue ref_ext (STag String_t) ?b 0 = Ok (v, off') \<and> 5 < off'"
    by (simp add: get_u32_def get_be_def sl_len_def of_be32_def read_lp_def sl_range_def sl_cap_def Let_def)
  then obtain v off' where "decodeValue ref_ext (STag String_t) ?b 0 = Ok (v, off')" "5 < off'" by blast
  with decode_reads_within_capacity [OF this(1)] show ?thesis by (auto simp: sl_cap_def)
qed

text \<open>
  C34. The bound is the capacity, not the length: a string whose length prefix runs past the received
  bytes is completed from the spare bytes of the receive buffer instead of being rejected.
\<close>

theorem string_over_read:
  assumes "sl_data b = be32 (word_of_nat n) @ x" and "n < 2 ^ 32"
    and "length x \<le> n" and "n \<le> length x + length (sl_spare b)"
  shows "schema_DecodePayload E \<lparr>sc_Name = nm, sc_Definition = STag String_t\<rparr> b
    = Ok (VString (bytes_str (x @ take (n - length x) (sl_spare b))))"
proof -
  have "unat (word_of_nat n :: 32 word) = n" using assms(2) by (intro unat_word_small) simp
  moreover have "get_u32 b 0 = Ok (word_of_nat n)" using assms(1) by simp
  ultimately show ?thesis
    using assms by (simp add: schema_DecodePayload_def read_lp_def sl_range_def sl_cap_def Let_def)
qed

theorem string_over_read_witness:
  "schema_DecodePayload ref_ext \<lparr>sc_Name = ''s'', sc_Definition = STag String_t\<rparr>
     \<lparr>sl_data = [0, 0, 0, 3, 65], sl_spare = [66, 67, 68]\<rparr> = Ok (VString ''ABC'')"
proof -
  let ?b = "\<lparr>sl_data = [0, 0, 0, 3, 65], sl_spare = [66, 67, 68]\<rparr>"
  have "sl_data ?b = be32 (word_of_nat 3) @ [65]" by (simp add: be32_def)
  from string_over_read [OF this, of ref_ext "''s''"] show ?thesis
    by (simp add: bytes_str_def char_of_def bit_simps)
qed

text \<open>
  C35. Integer payload values of every Go integer type reach the wire as the value modulo the field's
  width, and through a \<open>float64\<close> field unchanged up to \<open>2 ^ 53\<close> in magnitude.
\<close>

theorem integer_coercion:
  assumes "int_value v = Some i"
  shows "coerced E (STag Uint8_t) v = VUint8 (word_of_int i)
    \<and> coerced E (STag Uint16_t) v = VUint16 (word_of_int i)
    \<and> coerced E (STag Uint32_t) v = VUint32 (word_of_int i)
    \<and> coerced E (STag Int32_t) v = VInt32 (word_of_int i)
    \<and> (\<bar>i\<bar> < 2 ^ 53 \<longrightarrow> (\<exists>x. coerced E (STag Float64_t) v = VFloat64 x \<and> f64_trunc x = Some i))"
  using toUint64_int [OF assms] toInt64_int [OF assms] toFloat64_int [OF assms] f64_trunc_of_int [of i]
  by (simp add: ucast_word_of_int)

theorem integer_coercion_witness:
  "coerced ref_ext (STag Uint8_t) (VInt 300) = VUint8 44
    \<and> coerced ref_ext (STag Int32_t) (VInt (- 1)) = VInt32 (- 1)"
  using integer_coercion [of "VInt 300" 300 ref_ext] integer_coercion [of "VInt (- 1)" "- 1" ref_ext]
  by simp

text \<open>
  Schema names: exactly the non-empty strings of letters, digits and underscores are accepted,
  the empty name becomes \<open>unknown\<close>, every other name is refused with an error, which
  \<open>MustNewSchema\<close> turns into a panic.
\<close>

lemma schema_name_check:
  "(NewSchema name def = Ok \<lparr>sc_Name = name, sc_Definition = def\<rparr>
      \<longleftrightarrow> name \<noteq> [] \<and> (\<forall>c \<in> set name. word_char c))
   \<and> (NewSchema name def = Err (InvalidSchemaName name) \<longleftrightarrow> (\<exists>c \<in> set name. \<not> word_char c))
   \<and> NewSchema [] def = Ok \<lparr>sc_Name = ''unknown'', sc_Definition = def\<rparr>
   \<and> no_panic (NewSchema name def)
   \<and> (MustNewSchema name def = NewSchema name def \<or>
      (MustNewSchema name def = Panic (GoPanic (InvalidSchemaName name)) \<and> \<not> schemaNameRe name))"
  by (auto simp: NewSchema_def MustNewSchema_def schemaNameRe_def list_all_iff)


subsection \<open>Frames\<close>

definition chat_frame :: frame_options where
  "chat_frame = \<lparr>fo_Type = FrameEvent, fo_Nsp = [], fo_Event = ''user'', fo_AckID = 7, fo_Payload = user_payload\<rparr>"

definition user_serializers :: "externals \<Rightarrow> serializers" where
  "user_serializers E = \<lparr>EncodePayload = Some (schema_EncodePayload E user_schema),
     DecodePayload = Some (schema_DecodePayload E user_schema), DecodePayloadWithEvent = None\<rparr>"

lemma chat_frame_encodes:
  "EncodeFrame E chat_frame (Some (user_serializers E))
    = Ok (header_bytes FrameEvent ''/'' ''user'' 7 @ user_bytes)"
  using user_encodes [of E]
  by (simp add: EncodeFrame_layout payload_bytes_def chat_frame_def user_serializers_def opts_header_def
      nsp_or_root_def user_payload_def)

text \<open>
  C16. \<open>EncodeFrame\<close> writes the documented layout and nothing else: the header with its one-byte
  lengths and big-endian acknowledgement id, an empty namespace written as \<open>/\<close>, then the payload
  bytes (none for a nil payload). Its only error is the serializer's, and no write is out of bounds.
\<close>

theorem frame_layout:
  "EncodeFrame E opts ser =
     andThen (payload_bytes E ser (fo_Payload opts)) (\<lambda>pb. Ok (opts_header opts @ pb))"
  by (rule EncodeFrame_layout)

text \<open>
  C9. The header decoder is total on arbitrary bytes: it never panics, it fails (with the
  frame-too-short error) exactly when the bytes do not hold a whole header, and otherwise what it
  returns lays out, with the rest, to the very bytes it was given.
\<close>

theorem frame_header_total:
  "no_panic (DecodeFrameHeader raw)
   \<and> (header_complete (sl_data raw) \<longleftrightarrow> (\<exists>h rest. DecodeFrameHeader raw = Ok (h, rest)
        \<and> sl_data raw = header_bytes (fh_Type h) (fh_Nsp h) (fh_Event h) (fh_AckID h) @ sl_data rest))
   \<and> ((\<exists>s. DecodeFrameHeader raw = Err (FrameTooShort s)) \<longleftrightarrow> \<not> header_complete (sl_data raw))"
proof (cases "header_complete (sl_data raw)")
  case True
  from frame_header_total_ok [OF this] obtain h rest where ok: "DecodeFrameHeader raw = Ok (h, rest)" by blast
  show ?thesis using True DecodeFrameHeader_OkD [OF ok] by (simp add: ok)
next
  case False
  then obtain s where "DecodeFrameHeader raw = Err (FrameTooShort s)"
    using DecodeFrameHeader_short by blast
  then show ?thesis using False by simp
qed

text \<open>
  C29. A frame whose payload is written with a schema comes back, header and payload, whatever bytes
  the receive buffer holds behind it.
\<close>

theorem schema_frame_round_trip:
  assumes "EncodeFrame E opts (Some ser) = Ok bytes"
    and "EncodePayload ser = Some (schema_EncodePayload E s)"
    and "DecodePayload ser = Some (schema_DecodePayload E s)" and "DecodePayloadWithEvent ser = None"
    and "length (fo_Nsp opts) < 256" and "length (fo_Event opts) < 256"
    and "msgpack_decodes E" and "lens_ok E (sc_Definition s) (fo_Payload opts)"
  shows "DecodeFrame E \<lparr>sl_data = bytes, sl_spare = spare\<rparr> (Some ser) =
    Ok \<lparr>fr_Type = fo_Type opts, fr_Nsp = nsp_or_root (fo_Nsp opts), fr_Event = fo_Event opts,
        fr_AckID = fo_AckID opts,
        fr_Payload = (if fo_Payload opts = VNil \<or> schema_EncodePayload E s (fo_Payload opts) = Ok []
          then VNil else coerced E (sc_Definition s) (fo_Payload opts))\<rparr>"
  using assms
  by (intro schema_payload.frame_round_trip [of E opts "Some ser" bytes])
     (simp_all add: schema_payload.reads_with_def)

theorem schema_frame_round_trip_witness:
  "DecodeFrame ref_ext \<lparr>sl_data = header_bytes FrameEvent ''/'' ''user'' 7 @ user_bytes, sl_spare = [1, 2]\<rparr>
      (Some (user_serializers ref_ext)) =
    Ok \<lparr>fr_Type = FrameEvent, fr_Nsp = ''/'', fr_Event = ''user'', fr_AckID = 7,
        fr_Payload = coerced ref_ext (sc_Definition user_schema) user_payload\<rparr>"
proof -
  have "lens_ok ref_ext (sc_Definition user_schema) (fo_Payload chat_frame)"
    using user_lens by (simp add: chat_frame_def)
  from schema_frame_round_trip [OF chat_frame_encodes _ _ _ _ _ ref_ext_decodes this]
  have "DecodeFrame ref_ext \<lparr>sl_data = header_bytes FrameEvent ''/'' ''user'' 7 @ user_bytes,
      sl_spare = [1, 2]\<rparr> (Some (user_serializers ref_ext)) =
    Ok \<lparr>fr_Type = FrameEvent, fr_Nsp = nsp_or_root [], fr_Event = ''user'', fr_AckID = 7,
        fr_Payload = (if user_payload = VNil \<or> schema_EncodePayload ref_ext user_schema user_payload = Ok []
          then VNil else coerced ref_ext (sc_Definition user_schema) user_payload)\<rparr>"
    by (simp add: user_serializers_def chat_frame_def)
  then show ?thesis
    using user_encodes [of ref_ext] by (simp add: nsp_or_root_def user_bytes_def user_payload_def)
qed

text \<open>
  C30. With the default serializers a frame comes back with its payload as msgpack carries it,
  given that DEFLATE decompression inverts its compression.
\<close>

theorem default_frame_round_trip:
  assumes "EncodeFrame E opts None = Ok bytes"
    and "length (fo_Nsp opts) < 256" and "length (fo_Event opts) < 256"
    and "msgpack_decodes E" and "flate_inverts E"
    and "DefaultEncodePayload E (fo_Payload opts) \<noteq> Ok []"
  shows "DecodeFrame E \<lparr>sl_data = bytes, sl_spare = spare\<rparr> None =
    Ok \<lparr>fr_Type = fo_Type opts, fr_Nsp = nsp_or_root (fo_Nsp opts), fr_Event = fo_Event opts,
        fr_AckID = fo_AckID opts,
        fr_Payload = (if fo_Payload opts = VNil then VNil else msgpack_value E (fo_Payload opts))\<rparr>"
  using assms default_payload.frame_round_trip [of E opts None bytes E None "\<lparr>sl_data = bytes, sl_spare = spare\<rparr>"]
  by (simp add: default_payload.reads_with_def DefaultSerializers_def)

theorem default_frame_round_trip_witness:
  "DecodeFrame ref_ext \<lparr>sl_data = header_bytes FrameEvent ''/chat'' ''hi'' 0 @ [0xa2, 65, 66], sl_spare = []\<rparr> None
    = Ok \<lparr>fr_Type = FrameEvent, fr_Nsp = ''/chat'', fr_Event = ''hi'', fr_AckID = 0, fr_Payload = VString ''AB''\<rparr>"
proof -
  let ?o = "\<lparr>fo_Type = FrameEvent, fo_Nsp = ''/chat'', fo_Event = ''hi'', fo_AckID = 0, fo_Payload = VString ''AB''\<rparr>"
  have m: "mp_Marshal ref_ext (VString ''AB'') = Ok [0xa2, 65, 66]"
    by (simp add: ref_ext_def ref_EncodeString_def len_hdr_def str_bytes_def)
  have u: "mp_Unmarshal ref_ext [0xa2, 65, 66] = Ok (VString ''AB'')"
    by (simp add: ref_ext_def ref_Unmarshal_def ref_DecodeString_def read_hdr_def bytes_str_def
        char_of_def bit_simps)
  have d: "DefaultEncodePayload ref_ext (VString ''AB'') = Ok [0xa2, 65, 66]"
    by (simp add: DefaultEncodePayload_def m deflateRaw_def) (simp add: ref_ext_def ref_tokens_def)
  have e: "EncodeFrame ref_ext ?o None = Ok (header_bytes FrameEvent ''/chat'' ''hi'' 0 @ [0xa2, 65, 66])"
    by (simp add: EncodeFrame_layout payload_bytes_def DefaultSerializers_def d opts_header_def nsp_or_root_def)
  from default_frame_round_trip [OF e _ _ ref_ext_decodes ref_ext_flate, of "[]"] show ?thesis
    by (simp add: d msgpack_value_def m u nsp_or_root_def)
qed

text \<open>A header whose namespace part is fixed reads its event and id out of what is left, or is too short.\<close>

lemma DecodeFrameHeader_left:
  assumes d: "sl_data raw = ty # n # ns @ m # left" and n: "length ns = unat n"
  shows "if unat m + 4 \<le> length left
    then DecodeFrameHeader raw = Ok (\<lparr>fh_Type = ty, fh_Nsp = bytes_str ns, fh_Event = bytes_str (take (unat m) left),
        fh_AckID = of_be32 (take 4 (drop (unat m) left))\<rparr>,
      \<lparr>sl_data = drop (unat m + 4) left, sl_spare = sl_spare raw\<rparr>)
    else \<exists>s. DecodeFrameHeader raw = Err (FrameTooShort s)"
proof (cases "unat m + 4 \<le> length left")
  case True
  have "left = take (unat m) left @ take 4 (drop (unat m) left) @ drop 4 (drop (unat m) left)"
    by (simp only: append_take_drop_id)
  with d have "sl_data raw = ty # n # ns @ m # take (unat m) left @ take 4 (drop (unat m) left) @ drop 4 (drop (unat m) left)"
    by simp
  from DecodeFrameHeader_whole [OF this n] True show ?thesis by (simp add: add.commute)
next
  case False
  then have "\<not> header_complete (sl_data raw)" using n by (simp add: d header_complete_def nth_append)
  from DecodeFrameHeader_short [OF this] False show ?thesis by simp
qed

lemma unat_length_byte: "unat (word_of_nat n :: byte) = n mod 256"
  by (simp add: unsigned_of_nat take_bit_eq_mod)

lemma unat_char_byte: "unat (word_of_nat (of_char c) :: byte) = of_char c"
proof -
  have "(of_char c :: nat) < 256" by (rule of_char_less_256)
  then show ?thesis by (simp add: unat_length_byte)
qed

lemma str_bytes_split:
  "k < length s \<Longrightarrow> str_bytes s = str_bytes (take k s) @ word_of_nat (of_char (s ! k)) # str_bytes (drop (Suc k) s)"
  unfolding str_bytes_def by (subst (1) id_take_nth_drop [of k s]) simp_all

text \<open>
  C36. A name of 256 bytes or more is written whole behind a length byte that holds its length modulo 256,
  and no decoder recovers: a long event name is cut to that length, its next four bytes become the
  acknowledgement id and the rest of it the start of the payload; a long namespace name is cut likewise,
  its next byte becomes the length of the event name, which is read out of what follows, so the frame is
  misread or, when that runs past its end, refused.
\<close>

theorem long_names_are_lost:
  assumes sent: "EncodeFrame E opts ser = Ok bytes" and b: "sl_data b = bytes"
    and pb: "payload_bytes E ser (fo_Payload opts) = Ok pb"
  shows "(length (fo_Nsp opts) < 256 \<and> 256 \<le> length (fo_Event opts) \<longrightarrow>
      (let k = length (fo_Event opts) mod 256;
           left = str_bytes (drop k (fo_Event opts)) @ be32 (fo_AckID opts) @ pb
       in DecodeFrameHeader b = Ok (\<lparr>fh_Type = fo_Type opts, fh_Nsp = nsp_or_root (fo_Nsp opts),
            fh_Event = take k (fo_Event opts), fh_AckID = of_be32 (take 4 left)\<rparr>,
            \<lparr>sl_data = drop 4 left, sl_spare = sl_spare b\<rparr>)))
    \<and> (256 \<le> length (fo_Nsp opts) \<longrightarrow>
      (let k = length (fo_Nsp opts) mod 256; m = of_char (fo_Nsp opts ! k);
           left = str_bytes (drop (Suc k) (fo_Nsp opts)) @ word_of_nat (length (fo_Event opts))
             # str_bytes (fo_Event opts) @ be32 (fo_AckID opts) @ pb
       in if m + 4 \<le> length left
          then DecodeFrameHeader b = Ok (\<lparr>fh_Type = fo_Type opts, fh_Nsp = take k (fo_Nsp opts),
            fh_Event = bytes_str (take m left), fh_AckID = of_be32 (take 4 (drop m left))\<rparr>,
            \<lparr>sl_data = drop (m + 4) left, sl_spare = sl_spare b\<rparr>)
          else \<exists>s. DecodeFrameHeader b = Err (FrameTooShort s)))"
proof -
  let ?n = "fo_Nsp opts" and ?e = "fo_Event opts"
  have d: "sl_data b = fo_Type opts # word_of_nat (length (nsp_or_root ?n)) # str_bytes (nsp_or_root ?n)
      @ word_of_nat (length ?e) # str_bytes ?e @ be32 (fo_AckID opts) @ pb"
    using sent pb b by (auto simp: EncodeFrame_layout opts_header_def header_bytes_def)
  have event: ?thesis if short: "length ?n < 256" and long: "256 \<le> length ?e"
  proof -
    define k where "k = length ?e mod 256"
    have "length ?e mod 256 = (length ?e - 256) mod 256" using long by (rule le_mod_geq)
    then have "k \<le> length ?e - 256" unfolding k_def by simp
    then have k: "k + 4 \<le> length ?e" "k \<le> length ?e" using long by linarith+
    have cut: "take k (str_bytes ?e) = str_bytes (take k ?e)" "drop k (str_bytes ?e) = str_bytes (drop k ?e)"
      by (simp_all add: str_bytes_def take_map drop_map)
    have "length (nsp_or_root ?n) < 256" using short by (simp add: nsp_or_root_def)
    then have "length (str_bytes (nsp_or_root ?n)) = unat (word_of_nat (length (nsp_or_root ?n)) :: byte)"
      by (simp add: unat_length_byte)
    from DecodeFrameHeader_left [OF d this] k
    have "DecodeFrameHeader b = Ok (\<lparr>fh_Type = fo_Type opts, fh_Nsp = nsp_or_root ?n, fh_Event = take k ?e,
        fh_AckID = of_be32 (take 4 (str_bytes (drop k ?e) @ be32 (fo_AckID opts) @ pb))\<rparr>,
        \<lparr>sl_data = drop 4 (str_bytes (drop k ?e) @ be32 (fo_AckID opts) @ pb), sl_spare = sl_spare b\<rparr>)"
      by (simp add: unat_length_byte cut flip: k_def) (simp add: str_bytes_def drop_map add.commute)
    with short show ?thesis unfolding Let_def k_def by simp
  qed
  have name: ?thesis if long: "256 \<le> length ?n"
  proof -
    define k where "k = length ?n mod 256"
    have k: "k < length ?n" "k < 256"
      using long mod_less_divisor [of 256 "length ?n"] unfolding k_def by linarith+
    have n: "nsp_or_root ?n = ?n" using long by (auto simp: nsp_or_root_def)
    have len: "length (str_bytes (take k ?n)) = unat (word_of_nat (length ?n) :: byte)"
      using k by (simp add: unat_length_byte k_def)
    have "sl_data b = fo_Type opts # word_of_nat (length ?n) # str_bytes (take k ?n)
        @ word_of_nat (of_char (?n ! k)) # str_bytes (drop (Suc k) ?n)
          @ word_of_nat (length ?e) # str_bytes ?e @ be32 (fo_AckID opts) @ pb"
      unfolding d n str_bytes_split [OF k(1)] by simp
    from DecodeFrameHeader_left [OF this len] long show ?thesis
      unfolding unat_char_byte bytes_str_bytes Let_def k_def [symmetric] by (simp only: not_less [symmetric]) simp
  qed
  from event name show ?thesis by fastforce
qed

definition long_frame :: frame_options where
  "long_frame = \<lparr>fo_Type = FrameEvent, fo_Nsp = [], fo_Event = replicate 256 CHR ''a'', fo_AckID = 7, fo_Payload = VNil\<rparr>"

text \<open>An event of 256 letters arrives with no name, and the first four of its letters for an acknowledgement id.\<close>

theorem long_names_are_lost_witness:
  "\<exists>bytes rest. EncodeFrame ref_ext long_frame (Some (user_serializers ref_ext)) = Ok bytes
    \<and> DecodeFrameHeader (full_slice bytes)
        = Ok (\<lparr>fh_Type = FrameEvent, fh_Nsp = ''/'', fh_Event = [], fh_AckID = 0x61616161\<rparr>, rest)
    \<and> length (sl_data rest) = 256"
proof -
  let ?b = "opts_header long_frame"
  have pb: "payload_bytes ref_ext (Some (user_serializers ref_ext)) (fo_Payload long_frame) = Ok []"
    by (simp add: payload_bytes_def long_frame_def)
  have e: "EncodeFrame ref_ext long_frame (Some (user_serializers ref_ext)) = Ok ?b"
    using pb by (simp add: EncodeFrame_layout)
  have a: "str_bytes (replicate n CHR ''a'') = replicate n 0x61" for n
    by (simp add: str_bytes_def)
  have "of_be32 (take 4 (replicate 256 0x61 @ be32 7)) = 0x61616161"
    by (simp add: of_be32_def)
  then show ?thesis
    using long_names_are_lost [OF e _ pb, of "full_slice ?b"] e
    by (simp add: long_frame_def full_slice_def a nsp_or_root_def Let_def)
qed


subsection \<open>Schema definitions on the wire\<close>

definition user_table :: def_table where
  "user_table = fmap_of_list [(''user'', sc_Definition user_schema)]"

definition user_table_bytes :: "byte list" where
  "user_table_bytes = len_hdr 0x80 16 0xdf 1 @ len_hdr 0xa0 32 0xdb 4 @ str_bytes ''user'' @
     len_hdr 0x80 16 0xdf 3
     @ len_hdr 0xa0 32 0xdb 2 @ str_bytes ''id'' @ len_hdr 0xa0 32 0xdb 6 @ str_bytes Uint32_t
     @ len_hdr 0xa0 32 0xdb 4 @ str_bytes ''name'' @ len_hdr 0xa0 32 0xdb 6 @ str_bytes String_t
     @ len_hdr 0xa0 32 0xdb 8 @ str_bytes ''isActive'' @ len_hdr 0xa0 32 0xdb 7 @ str_bytes Boolean_t"

lemma sorted_list_of_singleton [simp]: "sorted_list_of_fset {|x|} = [x]"
  by (simp add: sorted_list_of_fset.rep_eq)

lemma ref_Marshal_def_tag:
  "mp_Marshal ref_ext (VMap m) = marshal_entries (fmmap ref_Marshal m)"
  "mp_Marshal ref_ext (VWireDef d) = writeSchemaDef ref_tokens d []"
  by (simp_all add: ref_ext_def)

lemma ref_deflate: "deflateRaw ref_ext d = Ok d"
  by (simp add: deflateRaw_def ref_ext_def ref_tokens_def)

lemma user_definition_written:
  "writeSchemaDef ref_tokens (sc_Definition user_schema) [] = Ok (drop 6 user_table_bytes)"
  by (simp add: user_schema_def builders ref_tokens_def ref_EncodeString_def user_table_bytes_def
      len_hdr_def str_bytes_def type_tags)

lemma user_table_marshalled: "ref_Marshal (export_table user_table) = Ok user_table_bytes"
  using user_definition_written
  by (simp add: export_table_def user_table_def marshal_entries_def WireSchemaDef_def fmdom_fmap_of_list
      fmlookup_of_list ref_EncodeString_def user_table_bytes_def len_hdr_def str_bytes_def)

lemma user_table_encodes: "DefaultEncodePayload ref_ext (export_table user_table) = Ok user_table_bytes"
  using user_table_marshalled by (simp add: DefaultEncodePayload_def ref_deflate) (simp add: ref_ext_def)

lemma user_table_fits: "table_fits 5 user_table"
  by (auto simp: table_fits_def user_table_def fmdom_fmap_of_list fcard.rep_eq fmlookup_of_list
      user_schema_def builders type_tags elim!: fmranE split: if_splits)

text \<open>
  A schema definition written to the wire is read back as it was, fields in the order they were
  declared, when its counts and names fit msgpack's 32-bit lengths.
\<close>

lemma definition_wire_round_trip:
  assumes "msgpack_tokens E" and "EncodeMsgpack E (ObjectDef fs) [] = Ok b"
    and "wire_fits (ObjectDef fs)" and "wire_depth (ObjectDef fs) \<le> depth"
  shows "decodeSchemaDef E depth (b @ rest) = Ok (ObjectDef fs, rest)"
proof -
  have "\<exists>b'. b = [] @ b' \<and> reads_back E (ObjectDef fs) b'"
    using assms(1-3) by (intro write_reads_back) (simp_all add: EncodeMsgpack_def)
  then show ?thesis using assms(4) by (auto simp: reads_back_def)
qed

text \<open>
  C23. The CONNECT payload of a sub-namespace round-trips: the client reads exactly the table of
  definitions the server exported, in whatever order the server's map was iterated.
\<close>

theorem namespace_table_round_trip:
  assumes "msgpack_tokens E" and "msgpack_maps E" and "flate_inverts E"
    and "DefaultEncodePayload E (export_table tbl) = Ok bs"
    and "table_fits depth tbl" and "sl_data raw = bs"
  shows "DecodeNamespaceSchemaPayload E depth raw = Ok tbl"
proof -
  obtain p where p: "mp_Marshal E (export_table tbl) = Ok p" "deflateRaw E p = Ok bs"
    using assms(4) by (auto simp: DefaultEncodePayload_def)
  then have "inflateRaw E bs = Ok p"
    using assms(3) deflateRaw_OkD by (auto simp: flate_inverts_def inflateRaw_def)
  with export_table_reads_back [OF assms(1,2,5) p(1), of "[]"] assms(6) show ?thesis
    by (simp add: DecodeNamespaceSchemaPayload_def)
qed

theorem namespace_table_round_trip_witness:
  "DecodeNamespaceSchemaPayload ref_ext 5 (full_slice user_table_bytes) = Ok user_table"
  by (rule namespace_table_round_trip
      [OF ref_ext_tokens ref_ext_maps ref_ext_flate user_table_encodes user_table_fits])
     (simp add: full_slice_def)

text \<open>
  The root CONNECT payload round-trips: every namespace's table arrives under its key.
\<close>

lemma root_table_reads_back:
  assumes "msgpack_tokens E" and "msgpack_maps E" and "flate_inverts E"
    and "DefaultEncodePayload E (VMap (fmmap export_table tbls)) = Ok bs"
    and "fcard (fmdom tbls) < 2 ^ 32" and "\<And>k. k |\<in>| fmdom tbls \<Longrightarrow> length k < 2 ^ 32"
    and "\<And>k tbl. fmlookup tbls k = Some tbl \<Longrightarrow> table_fits depth tbl"
    and "sl_data raw = bs"
  shows "DecodeRootSchemaPayload E depth raw = Ok tbls"
proof -
  obtain p where p: "mp_Marshal E (VMap (fmmap export_table tbls)) = Ok p" "deflateRaw E p = Ok bs"
    using assms(4) by (auto simp: DefaultEncodePayload_def)
  then have "inflateRaw E bs = Ok p"
    using assms(3) deflateRaw_OkD by (auto simp: flate_inverts_def inflateRaw_def)
  moreover have "decode_table E (decodeSchemaDefMap E depth) (p @ []) = Ok (tbls, [])"
    using assms(1,2) p(1) assms(5,6)
    by (rule decode_table_marshalled) (assumption | rule export_table_reads_back [OF assms(1,2,7)])+
  ultimately show ?thesis using assms(8) by (simp add: DecodeRootSchemaPayload_def)
qed

text \<open>
  C31. Decoding a CONNECT payload needs no more stack frames than the payload has bytes once inflated,
  whatever those bytes are: with one frame more, both readers return, with a table or an error, and
  neither overflows the stack nor panics otherwise.
\<close>

theorem connect_payload_depth:
  assumes laws: "msgpack_consumes E" "msgpack_lengths E" and "inflateRaw E (sl_data raw) = Ok inflated"
    and "length inflated < depth"
  shows "no_panic (DecodeNamespaceSchemaPayload E depth raw) \<and> no_panic (DecodeRootSchemaPayload E depth raw)"
proof -
  let ?tbl = "decodeSchemaDefMap E depth"
  have def: "decodeSchemaDef E depth dec \<noteq> Panic p
      \<and> (\<forall>v dec'. decodeSchemaDef E depth dec = Ok (v, dec') \<longrightarrow> length dec' < length dec)"
    if "length dec \<le> length inflated" for dec p
    by (rule decodeSchemaDef_depth [OF laws]) (use that assms(4) in simp)
  have tbl: "?tbl dec \<noteq> Panic p \<and> (\<forall>v dec'. ?tbl dec = Ok (v, dec') \<longrightarrow> length dec' < length dec)"
    if "length dec \<le> length inflated" for dec p
    unfolding decodeSchemaDefMap_def
    by (rule decode_table_depth [OF laws(1) def that])
  have "decode_table E ?tbl inflated \<noteq> Panic p" for p
    using decode_table_depth [OF laws(1) tbl, of "length inflated" inflated] by simp
  with tbl [of inflated] assms(3) show ?thesis
    by (auto simp: DecodeNamespaceSchemaPayload_def DecodeRootSchemaPayload_def no_panic_iff)
qed

text \<open>A table of one definition, cut off inside three nested arrays: six bytes, read with a depth of seven.\<close>

theorem connect_payload_depth_witness:
  "no_panic (DecodeNamespaceSchemaPayload ref_ext 7 (full_slice [0x81, 0xa1, 0x78, 0x91, 0x91, 0x91]))"
  using connect_payload_depth [OF ref_ext_consumes ref_ext_lengths,
      of "full_slice [0x81, 0xa1, 0x78, 0x91, 0x91, 0x91]" "[0x81, 0xa1, 0x78, 0x91, 0x91, 0x91]" 7]
  by (simp add: inflateRaw_def ref_ext_def ref_tokens_def full_slice_def)

text \<open>
  C32. There is no limit short of that: a definition of nested arrays deeper than the stack has room
  for overflows it, so a few bytes per level in a CONNECT payload end the client's process.
\<close>

theorem nested_definition_overflows:
  assumes "msgpack_tokens E" and "mp_EncodeArrayLen E 1 = Ok b" and "depth \<le> n"
  shows "decodeSchemaDef E depth (concat (replicate n b) @ rest) = Panic StackOverflow"
  using assms(3)
proof (induction depth arbitrary: n)
  case 0
  then show ?case by simp
next
  case (Suc d)
  then obtain m where m: "n = Suc m" "d \<le> m" by (cases n) auto
  from msgpack_tokensD(2) [OF assms(1) _ _ assms(2), of "concat (replicate m b) @ rest"] obtain c
    where "mp_DecodeArrayLen E (b @ concat (replicate m b) @ rest) = Ok (1, concat (replicate m b) @ rest)"
      and c: "mp_PeekCode E (b @ concat (replicate m b) @ rest) = Ok c" "\<not> string_code E c" "array_code E c"
    by auto
  with Suc.IH [OF m(2)] m(1) decode_by_code(2) [OF c] show ?case by simp
qed

theorem nested_definition_overflows_witness:
  "decodeSchemaDef ref_ext 3 [0x91, 0x91, 0x91, 0xa5] = Panic StackOverflow"
proof -
  have "mp_EncodeArrayLen ref_ext 1 = Ok [0x91]"
    by (simp add: ref_ext_def ref_tokens_def len_hdr_def)
  from nested_definition_overflows [OF ref_ext_tokens this, of 3 3 "[0xa5]"] show ?thesis
    by (simp add: numeral_3_eq_3)
qed

end
