(* ===== verification/Server_Properties.thy ===== *)
theory Server_Properties
  imports Example_Server Protocol_Properties
begin

text \<open>
  The properties of the server package: the invariant of every reachable state, exact delivery, the two
  middleware gates, closing, what is left behind, rooms, the schema export, origins.
\<close>

subsection \<open>Helpers\<close>

lemma register_socket_sel [simp]:
  "w_socket (register_socket h nsp p w) = w_socket w"
  "sv_useSchemas (register_socket h nsp p w) = sv_useSchemas w"
  "sv_serializers (register_socket h nsp p w) = sv_serializers w"
  "ns_sockets (ns_at (register_socket h nsp p w) m) = (if m = nsp then finsert p (ns_sockets (ns_at w m)) else ns_sockets (ns_at w m))"
  "ns_connHandlers (ns_at (register_socket h nsp p w) m) = ns_connHandlers (ns_at w m)"
  "ns_Name (ns_at (register_socket h nsp p w) m) = ns_Name (ns_at w m)"
  "hb_sockets (w_hub (register_socket h nsp p w) k) = (if k = h then fmupd nsp p (hb_sockets (w_hub w h)) else hb_sockets (w_hub w k))"
  by (simp_all add: register_socket_def addSocket_def add_member_def)

text \<open>An accepted socket is registered before anything is sent or user code runs.\<close>

lemma connected_passed:
  assumes "connected V h nsp p ex True w = Ok w'"
  obtains w1 where "ns_at w1 = ns_at (register_socket h nsp p w)"
    and "\<forall>k. hb_sockets (w_hub w1 k) = hb_sockets (w_hub (register_socket h nsp p w) k)"
    and "fireConnection V nsp p w1 = Ok w'"
proof -
  let ?w = "register_socket h nsp p w"
  let ?r = "EncodeFrame (ev_ext V) (event_frame FrameConnect nsp [] 0 (if sv_useSchemas ?w then ex ?w else VNil))
      (Some (sv_serializers ?w))"
  obtain w1 where send: "if_encoded ?r (\<lambda>buf w. Ok (socket_send p buf w)) ?w = Ok w1"
    and fire: "fireConnection V nsp p w1 = Ok w'"
    using assms by (auto simp: connected_def Let_def)
  have "w1 = ?w \<or> (\<exists>buf. w1 = socket_send p buf ?w)"
    using send by (cases ?r) auto
  then have "ns_at w1 = ns_at ?w
      \<and> (\<forall>k. hb_sockets (w_hub w1 k) = hb_sockets (w_hub ?w k))"
    by (auto simp del: register_socket_sel(4-7))
  with that fire show thesis by blast
qed

subsection \<open>Reachable states\<close>

text \<open>
  C3. In every state the server's goroutines can reach, in whatever order their steps interleave (late
  calls of \<open>next\<close> with or without an error, on connections and on events, and late acknowledgements
  included): a hub dispatches a namespace's frames only to a socket of that namespace and of that
  connection, every such socket is a member of its namespace (so broadcasts reach it), every member is
  an allocated socket of its namespace, and namespaces carry the name they are stored under.
\<close>

theorem server_invariant:
  assumes "env_lawful V" and "env_ranges V" and "reachable V cfg w"
  shows "(\<forall>h nsp p. fmlookup (hb_sockets (w_hub w h)) nsp = Some p \<longrightarrow>
      p |\<in>| ns_sockets (ns_at w nsp) \<and> so_Nsp (w_socket w p) = nsp \<and> so_hub (w_socket w p) = h)
    \<and> (\<forall>nsp p. p |\<in>| ns_sockets (ns_at w nsp) \<longrightarrow>
      p < w_sockets w \<and> so_Nsp (w_socket w p) = nsp \<and> so_hub (w_socket w p) < w_hubs w)
    \<and> (\<forall>nsp. ns_Name (ns_at w nsp) = nsp) \<and> ''/'' |\<in>| fmdom (sv_namespaces w)"
  using server_invD [OF reachable_inv [OF assms(3,1,2)]] by metis

definition plain_cfg :: config where
  "plain_cfg = \<lparr>cfg_Port = 0, cfg_Serializers = None, cfg_UseSchemas = Some False, cfg_CORSOrigins = [],
     cfg_ReadBufferSize = 0, cfg_WriteBufferSize = 0\<rparr>"

text \<open>A server with one accepted connection.\<close>

definition first_connection :: world where
  "first_connection =
     (case open_connection (secure_env ref_ext) blank_handshake (New ref_ext plain_cfg) of (h, p, w) \<Rightarrow> w)"

definition first_accepted :: world where
  "first_accepted = socket_send 0 (header_bytes FrameConnect ''/'' [] 0) (register_socket 0 ''/'' 0 first_connection)"

lemma first_open:
  "open_connection (secure_env ref_ext) blank_handshake (New ref_ext plain_cfg) = (0, 0, first_connection)"
  by (simp add: first_connection_def open_connection_def newConnHub_def newSocket_def New_def Of_def Let_def
      split: prod.split option.split)

lemma first_connection_sel:
  "sv_useSchemas first_connection = False" "ns_connHandlers (ns_at first_connection ''/'') = []"
  "ns_middlewares (ns_at first_connection ''/'') = []"
  "fmlookup (sv_namespaces first_connection) ''/'' = Some (newNamespace ''/'')"
  "so_closed (w_socket first_connection 0) = False" "so_hub (w_socket first_connection 0) = 0"
  "hb_calls (w_hub first_connection h) = []" "w_hubs first_connection = 1" "w_sockets first_connection = 1"
  "hb_sockets (w_hub first_connection h) = fmempty" "so_Nsp (w_socket first_connection 0) = ''/''"
  by (simp_all add: first_connection_def open_connection_def newConnHub_def newSocket_def New_def Of_def Let_def
      upd_hub_def upd_socket_def ns_at_def newNamespace_def plain_cfg_def blank_hub_def)

lemma first_root: "ns_at first_connection ''/'' = newNamespace ''/''"
  by (simp add: ns_at_def first_connection_sel)

lemma first_accepted_step:
  "connected (secure_env ref_ext) 0 ''/'' 0 (exportAllSchemas V) True first_connection = Ok first_accepted"
  by (simp add: connected_def first_connection_sel fireConnection_def first_accepted_def nsp_or_root_def Let_def)

lemma first_accepted_reachable: "reachable (secure_env ref_ext) plain_cfg first_accepted"
proof -
  have "reachable (secure_env ref_ext) plain_cfg (New ref_ext plain_cfg)"
    using reachable.start [of "secure_env ref_ext" plain_cfg] by (simp add: secure_env_def base_env_def)
  then have "reachable (secure_env ref_ext) plain_cfg first_connection"
    by (rule reachable.step) (rule server_step.accept [OF first_open])
  moreover have "owned first_connection 0 ''/'' 0"
    by (simp add: owned_def first_connection_sel fmdomI)
  then have "server_step (secure_env ref_ext) Working first_connection first_accepted"
    by (rule server_step.chain [where ms = "[]" and ex = "exportAllSchemas (secure_env ref_ext)"])
       (simp add: first_accepted_step)
  ultimately show ?thesis by (rule reachable.step)
qed

theorem server_invariant_witness:
  "fmlookup (hb_sockets (w_hub first_accepted 0)) ''/'' = Some 0
    \<and> 0 |\<in>| ns_sockets (ns_at first_accepted ''/'') \<and> so_hub (w_socket first_accepted 0) = 0"
proof -
  have "fmlookup (hb_sockets (w_hub first_accepted 0)) ''/'' = Some 0"
    by (simp add: first_accepted_def)
  then show ?thesis
    using server_invariant [OF secure_env_lawful secure_env_ranges first_accepted_reachable] by blast
qed

subsection \<open>Delivery\<close>

text \<open>
  C22. Emitting to a namespace, excluding at most one socket, delivers the encoded frame exactly once to
  every other open member, on its connection, whatever order the member set is ranged over; nothing else
  changes. If the payload does not encode, nothing is sent.
\<close>

theorem namespace_emit_exact:
  assumes "env_ranges V"
  shows "emitExcluding V nsp event payload exclude w =
    (case EncodeFrame (ev_ext V) (event_frame FrameEvent (ns_Name (ns_at w nsp)) event 0 payload)
        (Some (serializersFor V w nsp event)) of
       Ok buf \<Rightarrow> Ok (deliver (ffilter (\<lambda>p. Some p \<noteq> exclude) (ns_sockets (ns_at w nsp))) buf w)
     | Err e \<Rightarrow> Ok w
     | Panic q \<Rightarrow> Panic q)"
  using emitExcluding_deliver [OF assms] by (simp add: if_encoded_def)

theorem namespace_emit_exact_witness:
  "\<exists>w'. emitExcluding (secure_env ref_ext) ''/'' ''step5'' VNil None first_accepted = Ok w'
    \<and> hb_calls (w_hub w' 0) = [WriteMessage (header_bytes FrameConnect ''/'' [] 0),
        WriteMessage (header_bytes FrameEvent ''/'' ''step5'' 0)]"
proof -
  have "ns_Name (ns_at first_accepted ''/'') = ''/''" "ns_sockets (ns_at first_accepted ''/'') = {|0|}"
    by (simp_all add: first_accepted_def first_root newNamespace_def)
  moreover have "hb_calls (w_hub first_accepted 0) = [WriteMessage (header_bytes FrameConnect ''/'' [] 0)]"
    "so_closed (w_socket first_accepted 0) = False" "so_hub (w_socket first_accepted 0) = 0"
    by (simp_all add: first_accepted_def socket_send_def hub_send_def first_connection_sel register_socket_def
        addSocket_def)
  ultimately show ?thesis
    using namespace_emit_exact [OF secure_env_ranges, of ref_ext "''/''" "''step5''" VNil None first_accepted]
    by (simp add: deliver_def ffilter_finsert fcard.rep_eq nsp_or_root_def)
qed

text \<open>
  C4. Emitting to a room delivers the frame exactly once to every open member of the namespace that has
  joined the room and is not the excluded sender: to no socket of another namespace or outside the room.
\<close>

theorem room_emit_exact:
  assumes "env_ranges V"
  shows "toExcluding V nsp room event payload exclude w =
    (case EncodeFrame (ev_ext V) (event_frame FrameEvent (ns_Name (ns_at w nsp)) event 0 payload)
        (Some (serializersFor V w nsp event)) of
       Ok buf \<Rightarrow> Ok (deliver (ffilter (\<lambda>p. Some p \<noteq> exclude \<and> HasRoom p room w) (ns_sockets (ns_at w nsp))) buf w)
     | Err e \<Rightarrow> Ok w
     | Panic q \<Rightarrow> Panic q)"
  using toExcluding_deliver [OF assms] by (simp add: if_encoded_def)

theorem room_emit_exact_witness:
  "\<exists>w'. toExcluding (secure_env ref_ext) ''/'' ''lobby'' ''hi'' VNil None (Join 0 ''lobby'' first_accepted) = Ok w'
    \<and> hb_calls (w_hub w' 0) = [WriteMessage (header_bytes FrameConnect ''/'' [] 0),
        WriteMessage (header_bytes FrameEvent ''/'' ''hi'' 0)]"
proof -
  let ?w = "Join 0 ''lobby'' first_accepted"
  have "ns_Name (ns_at ?w ''/'') = ''/''" "ns_sockets (ns_at ?w ''/'') = {|0|}"
    by (simp_all add: Join_def first_accepted_def first_root newNamespace_def)
  moreover have "hb_calls (w_hub ?w 0) = [WriteMessage (header_bytes FrameConnect ''/'' [] 0)]"
    "so_closed (w_socket ?w 0) = False" "so_hub (w_socket ?w 0) = 0" "HasRoom 0 ''lobby'' ?w"
    by (simp_all add: Join_def join_room_def HasRoom_def in_room_def first_accepted_def socket_send_def hub_send_def
        first_connection_sel register_socket_def addSocket_def)
  ultimately show ?thesis
    using room_emit_exact [OF secure_env_ranges, of ref_ext "''/''" "''lobby''" "''hi''" VNil None ?w]
    by (simp add: deliver_def ffilter_finsert fcard.rep_eq nsp_or_root_def)
qed

text \<open>
  Membership of a room is decided by the last join or leave of that room, whatever was done with
  other rooms in between; a room never touched keeps its state.
\<close>

lemma room_history:
  "HasRoom p room (fold (\<lambda>change. case change of SetAdd r \<Rightarrow> Join p r | SetDelete r \<Rightarrow> Leave p r) changes w) \<longleftrightarrow>
     (case filter (\<lambda>change. element change = room) (rev changes) of
        [] \<Rightarrow> HasRoom p room w | change # _ \<Rightarrow> change = SetAdd room)"
proof -
  have "w_socket (fold (\<lambda>change. case change of SetAdd r \<Rightarrow> Join p r | SetDelete r \<Rightarrow> Leave p r) changes w) p
      = fold socket_rooms.apply_op changes (w_socket w p)"
    by (induction changes arbitrary: w) (auto simp: Join_def Leave_def split: set_op.split)
  then show ?thesis by (simp add: HasRoom_def socket_rooms.history split: list.split)
qed

subsection \<open>Middleware\<close>

lemma socket_send_deliver: "socket_send p buf w = deliver {|p|} buf w"
  using deliver_finsert [of p "{||}" buf w] by simp

text \<open>What registering a socket and hanging up on it write, field by field.\<close>

lemma register_socket_fields:
  "register_socket h nsp p w =
     w\<lparr>sv_namespaces := fmupd nsp ((ns_at w nsp)\<lparr>ns_sockets := finsert p (ns_sockets (ns_at w nsp))\<rparr>) (sv_namespaces w),
       w_hub := (w_hub w)(h := (w_hub w h)\<lparr>hb_sockets := fmupd nsp p (hb_sockets (w_hub w h))\<rparr>)\<rparr>"
  by (simp add: register_socket_def addSocket_def add_member_def upd_ns_def upd_hub_def)

lemma closeConn_fields:
  "closeConn p (if \<not> so_closed (w_socket w p) \<and> sent then hub_send (so_hub (w_socket w p)) buf w else w) =
     w\<lparr>w_socket := (w_socket w)(p := (w_socket w p)\<lparr>so_closed := True\<rparr>),
       w_hub := (w_hub w)(so_hub (w_socket w p) := (w_hub w (so_hub (w_socket w p)))
         \<lparr>hb_calls := hb_calls (w_hub w (so_hub (w_socket w p)))
            @ (if \<not> so_closed (w_socket w p) \<and> sent then [WriteMessage buf] else []) @ [CloseConn]\<rparr>)\<rparr>"
  by (simp add: closeConn_def hub_send_def upd_hub_def upd_socket_def)

text \<open>
  C13. The connection gate, for middlewares that each hand over at most once. If all pass, in order, the
  socket is put into its namespace's member set and its hub's table, the CONNECT frame is written to
  it, and the namespace's connection handlers run on it, in order. The first rejection writes an \<open>error\<close>
  acknowledgement frame (if the socket is open and the message encodes), marks the socket closed, closes
  the whole physical connection, and registers nothing. A middleware that never calls \<open>next\<close> leaves the
  connection undecided.
\<close>

theorem connection_gate:
  assumes "\<And>m w. behaves (ev_connMiddleware V m p) w (v m w)"
  shows "runMiddlewares V nsp p (connected V h nsp p ex) w =
    (case chain_verdict v (ns_middlewares (ns_at w nsp)) w of
       Passes u \<Rightarrow>
         (let u = u\<lparr>sv_namespaces := fmupd nsp ((ns_at u nsp)\<lparr>ns_sockets := finsert p (ns_sockets (ns_at u nsp))\<rparr>) (sv_namespaces u),
                w_hub := (w_hub u)(h := (w_hub u h)\<lparr>hb_sockets := fmupd nsp p (hb_sockets (w_hub u h))\<rparr>)\<rparr>;
              handlers = foldm (\<lambda>f. ev_connHandler V f p) (ns_connHandlers (ns_at u nsp))
          in case EncodeFrame (ev_ext V) (event_frame FrameConnect nsp [] 0 (if sv_useSchemas u then ex u else VNil))
                (Some (sv_serializers u)) of
               Ok buf \<Rightarrow> handlers (deliver {|p|} buf u)
             | Err _ \<Rightarrow> handlers u
             | Panic q \<Rightarrow> Panic q)
     | Rejects e u \<Rightarrow>
         (let hang_up = (\<lambda>writes. u\<lparr>w_socket := (w_socket u)(p := (w_socket u p)\<lparr>so_closed := True\<rparr>),
                w_hub := (w_hub u)(so_hub (w_socket u p) := (w_hub u (so_hub (w_socket u p)))
                  \<lparr>hb_calls := hb_calls (w_hub u (so_hub (w_socket u p))) @ writes @ [CloseConn]\<rparr>)\<rparr>)
          in case EncodeFrame (ev_ext V) (event_frame FrameAck (ns_Name (ns_at u nsp)) ''error'' 0
                (message_payload (ev_Error V e))) (Some (sv_serializers u)) of
               Ok buf \<Rightarrow> Ok (hang_up (if so_closed (w_socket u p) then [] else [WriteMessage buf]))
             | Err _ \<Rightarrow> Ok (hang_up [])
             | Panic q \<Rightarrow> Panic q)
     | Drops u \<Rightarrow> Ok u)"
proof -
  have "reject_connection V nsp p (connected V h nsp p ex) e u =
      (case EncodeFrame (ev_ext V) (event_frame FrameAck (ns_Name (ns_at u nsp)) ''error'' 0
           (message_payload (ev_Error V e))) (Some (sv_serializers u)) of
          Ok buf \<Rightarrow> Ok (closeConn p (if \<not> so_closed (w_socket u p) \<and> True then hub_send (so_hub (w_socket u p)) buf u else u))
        | Err _ \<Rightarrow> Ok (closeConn p (if \<not> so_closed (w_socket u p) \<and> False then hub_send (so_hub (w_socket u p)) [] u else u))
        | Panic q \<Rightarrow> Panic q)" for e u
    by (simp add: reject_connection_def connected_def if_encoded_def socket_send_def split: res.split)
  moreover have "connected V h nsp p ex True u =
      (let u = register_socket h nsp p u; handlers = foldm (\<lambda>f. ev_connHandler V f p) (ns_connHandlers (ns_at u nsp))
       in case EncodeFrame (ev_ext V) (event_frame FrameConnect nsp [] 0 (if sv_useSchemas u then ex u else VNil))
             (Some (sv_serializers u)) of
            Ok buf \<Rightarrow> handlers (deliver {|p|} buf u) | Err _ \<Rightarrow> handlers u | Panic q \<Rightarrow> Panic q)" for u
    by (simp add: connected_def Let_def if_encoded_def fireConnection_def socket_send_deliver split: res.split)
  ultimately show ?thesis
    unfolding runMiddlewares_verdict [OF assms] register_socket_fields closeConn_fields
    by (simp add: Let_def split: verdict.split res.split)
qed

text \<open>A server whose root namespace is behind the token check, with a connection that has no token.\<close>

definition gated_connection :: world where
  "gated_connection = ns_Use ''/'' 0 first_connection"

lemma gated_sel:
  "ns_at gated_connection ''/'' = (newNamespace ''/'')\<lparr>ns_middlewares := [0]\<rparr>"
  "w_socket gated_connection = w_socket first_connection" "w_hub gated_connection = w_hub first_connection"
  "sv_serializers gated_connection = DefaultSerializers ref_ext"
  by (simp_all add: gated_connection_def ns_Use_def ns_at_def first_connection_sel newNamespace_def upd_ns_def)
     (simp add: first_connection_def open_connection_def newConnHub_def newSocket_def New_def Of_def Let_def
       upd_hub_def upd_socket_def plain_cfg_def)

lemma ns_at_fields [simp]:
  "ns_at (w\<lparr>w_socket := s, w_hub := k\<rparr>) = ns_at w" "ns_at (w\<lparr>w_sockets := n\<rparr>) = ns_at w"
  by (simp_all add: ns_at_def fun_eq_iff)

lemma secure_env_ext [simp]: "ev_ext (secure_env E) = E"
  by (simp add: secure_env_def base_env_def)

definition auth_error_bytes :: "byte list" where
  "auth_error_bytes = [0x81, 0xa7] @ str_bytes ''message'' @ [0xb0] @ str_bytes ''ERR_AUTH_FAILURE''"

lemma auth_error_encodes: "DefaultEncodePayload ref_ext (message_payload ''ERR_AUTH_FAILURE'') = Ok auth_error_bytes"
proof -
  have "ref_Marshal (message_payload ''ERR_AUTH_FAILURE'') = Ok auth_error_bytes"
    by (simp add: message_payload_def marshal_entries_def fmdom_fmap_of_list fmlookup_of_list ref_EncodeString_def
        len_hdr_def str_bytes_def auth_error_bytes_def)
  then show ?thesis
    by (simp add: DefaultEncodePayload_def deflateRaw_def) (simp add: ref_ext_def ref_tokens_def)
qed

lemma auth_error_frame:
  "EncodeFrame ref_ext (event_frame FrameAck ''/'' ''error'' ack (message_payload ''ERR_AUTH_FAILURE''))
      (Some (DefaultSerializers ref_ext)) = Ok (header_bytes FrameAck ''/'' ''error'' ack @ auth_error_bytes)"
  using auth_error_encodes
  by (simp add: EncodeFrame_layout payload_bytes_def event_frame_def opts_header_def DefaultSerializers_def
      message_payload_def nsp_or_root_def)

text \<open>The connection without a token is sent the error and hung up on; it is no member and not dispatched to.\<close>

theorem connection_gate_witness:
  "\<exists>w. runMiddlewares (secure_env ref_ext) ''/'' 0 (connected (secure_env ref_ext) 0 ''/'' 0 (\<lambda>_. VNil)) gated_connection = Ok w
    \<and> so_closed (w_socket w 0)
    \<and> hb_calls (w_hub w 0) = [WriteMessage (header_bytes FrameAck ''/'' ''error'' 0 @ auth_error_bytes), CloseConn]
    \<and> hb_sockets (w_hub w 0) = fmempty \<and> ns_sockets (ns_at w ''/'') = {||}"
proof -
  have verdict: "chain_verdict (token_verdict 0) (ns_middlewares (ns_at gated_connection ''/'')) gated_connection
      = Rejects auth_failure gated_connection"
    by (simp add: gated_sel token_verdict_def header_Get_def)
       (simp add: first_connection_def open_connection_def newConnHub_def newSocket_def New_def Of_def Let_def
         upd_hub_def upd_socket_def blank_handshake_def)
  have err: "ev_Error (secure_env ref_ext) auth_failure = ''ERR_AUTH_FAILURE''"
    by (simp add: secure_env_def base_env_def auth_failure_def)
  show ?thesis
    using connection_gate [OF token_behaves, of ref_ext "''/''" 0 0 "\<lambda>_. VNil" gated_connection] verdict auth_error_frame err
    by (simp add: gated_sel first_connection_sel Let_def newNamespace_def)
qed

text \<open>What the event chain of a socket comes to, down to the listener and the acknowledgement.\<close>

lemma processEvent_outcome:
  assumes "\<And>m s. behaves (ev_socketMiddleware V m) s (v m s)"
  shows "processEvent V p fr w =
    (let reply = (\<lambda>event resp u.
           case EncodeFrame (ev_ext V) (event_frame FrameAck (so_Nsp (w_socket u p)) event (fr_AckID fr) resp)
               (Some (sv_serializers u)) of
             Ok buf \<Rightarrow> Ok (deliver {|p|} buf u) | Err _ \<Rightarrow> Ok u | Panic q \<Rightarrow> Panic q)
     in case chain_verdict v (so_middlewares (w_socket w p)) (\<lparr>pk_Event = fr_Event fr, pk_Payload = fr_Payload fr\<rparr>, w) of
       Passes (packet, u) \<Rightarrow>
         (case fmlookup (so_listeners (w_socket u p)) (pk_Event packet) of
            None \<Rightarrow> Ok u
          | Some f \<Rightarrow> ev_eventHandler V f (pk_Payload packet)
              (if fr_AckID fr = 0 then None else Some (reply (pk_Event packet))) u)
     | Rejects e (packet, u) \<Rightarrow>
         if fr_AckID fr = 0 then Ok u else reply ''error'' (message_payload (ev_Error V e)) u
     | Drops (packet, u) \<Rightarrow> Ok u)"
proof -
  have eq: "ev_socketMiddleware V = of_verdict v"
    using assms by (intro ext [of "ev_socketMiddleware V"] behaves_unique)
  have pos: "0 < fr_AckID fr \<longleftrightarrow> fr_AckID fr \<noteq> 0" by (simp add: word_neq_0_conv)
  have ack: "ack_function V p event (fr_AckID fr) =
      (\<lambda>resp u. case EncodeFrame (ev_ext V) (event_frame FrameAck (so_Nsp (w_socket u p)) event (fr_AckID fr) resp)
             (Some (sv_serializers u)) of
           Ok buf \<Rightarrow> Ok (deliver {|p|} buf u) | Err _ \<Rightarrow> Ok u | Panic q \<Rightarrow> Panic q)" for event
    by (intro ext) (simp add: ack_function_def if_encoded_def socket_send_deliver split: res.split)
  show ?thesis
    unfolding processEvent_def eq verdict_chain.run_verdict
    by (cases "chain_verdict v (so_middlewares (w_socket w p)) (\<lparr>pk_Event = fr_Event fr, pk_Payload = fr_Payload fr\<rparr>, w)")
       (auto simp: with_packet_def andThen_assoc reject_event_def if_encoded_def invokeHandler_def pos ack Let_def
         socket_send_deliver split: res.split option.split)
qed

text \<open>
  C14. The event gate, for middlewares that each hand over at most once. If all pass, the listener of the
  event the middlewares leave is called once, on the payload they leave, with an acknowledgement function
  exactly if the request has an id: that function writes the response to the socket under the id, with the
  server's serializers. The first rejection writes an \<open>error\<close> acknowledgement with the request's id, and
  nothing at all if the client asked for none; a middleware that never calls \<open>next\<close> drops the event.
\<close>

theorem event_gate:
  assumes "\<And>m s. behaves (ev_socketMiddleware V m) s (v m s)"
  shows "processEvent V p fr w =
    (let reply = (\<lambda>event resp u.
           case EncodeFrame (ev_ext V) (event_frame FrameAck (so_Nsp (w_socket u p)) event (fr_AckID fr) resp)
               (Some (sv_serializers u)) of
             Ok buf \<Rightarrow> Ok (deliver {|p|} buf u) | Err _ \<Rightarrow> Ok u | Panic q \<Rightarrow> Panic q)
     in case chain_verdict v (so_middlewares (w_socket w p)) (\<lparr>pk_Event = fr_Event fr, pk_Payload = fr_Payload fr\<rparr>, w) of
       Passes (packet, u) \<Rightarrow>
         (case fmlookup (so_listeners (w_socket u p)) (pk_Event packet) of
            None \<Rightarrow> Ok u
          | Some f \<Rightarrow> ev_eventHandler V f (pk_Payload packet)
              (if fr_AckID fr = 0 then None else Some (reply (pk_Event packet))) u)
     | Rejects e (packet, u) \<Rightarrow>
         if fr_AckID fr = 0 then Ok u else reply ''error'' (message_payload (ev_Error V e)) u
     | Drops (packet, u) \<Rightarrow> Ok u)"
  by (rule processEvent_outcome [OF assms])

text \<open>
  An event middleware that refuses the event \<open>admin\<close> and replaces the payload of any other, and a handler
  that acknowledges with what it gets.
\<close>

definition screen :: "fid \<Rightarrow> event_packet \<times> world \<Rightarrow> (event_packet \<times> world) verdict" where
  "screen m s = (if pk_Event (fst s) = ''admin'' then Rejects auth_failure s
     else Passes ((fst s)\<lparr>pk_Payload := VBool True\<rparr>, snd s))"

definition echo_env :: "externals \<Rightarrow> env" where
  "echo_env E = (base_env E)\<lparr>ev_socketMiddleware := of_verdict screen,
     ev_eventHandler := (\<lambda>f payload ack. call_ack ack payload)\<rparr>"

definition echo_server :: world where
  "echo_server = socket_Use 0 0 (socket_On 0 ''x'' 7 first_accepted)"

lemma first_accepted_sel:
  "hb_calls (w_hub first_accepted 0) = [WriteMessage (header_bytes FrameConnect ''/'' [] 0)]"
  "so_closed (w_socket first_accepted 0) = False" "so_hub (w_socket first_accepted 0) = 0"
  "so_Nsp (w_socket first_accepted 0) = ''/''" "so_middlewares (w_socket first_accepted 0) = []"
  "so_listeners (w_socket first_accepted 0) = fmempty" "sv_serializers first_accepted = DefaultSerializers ref_ext"
proof -
  show "hb_calls (w_hub first_accepted 0) = [WriteMessage (header_bytes FrameConnect ''/'' [] 0)]"
    by (simp add: first_accepted_def socket_send_def hub_send_def first_connection_sel register_socket_def addSocket_def)
  show "so_middlewares (w_socket first_accepted 0) = []" "so_listeners (w_socket first_accepted 0) = fmempty"
    "sv_serializers first_accepted = DefaultSerializers ref_ext"
    by (simp_all add: first_accepted_def first_connection_def open_connection_def newConnHub_def newSocket_def
        New_def Of_def Let_def upd_hub_def upd_socket_def plain_cfg_def)
qed (simp_all add: first_accepted_def first_connection_sel)

lemma echo_server_sel:
  "so_middlewares (w_socket echo_server 0) = [0]" "so_listeners (w_socket echo_server 0) = fmap_of_list [(''x'', 7)]"
  "so_Nsp (w_socket echo_server 0) = ''/''" "sv_serializers echo_server = DefaultSerializers ref_ext"
  "so_closed (w_socket echo_server 0) = False" "so_hub (w_socket echo_server 0) = 0"
  "hb_calls (w_hub echo_server 0) = [WriteMessage (header_bytes FrameConnect ''/'' [] 0)]"
  by (simp_all add: echo_server_def socket_Use_def socket_On_def first_accepted_sel)

lemma deliver_one:
  "\<not> so_closed (w_socket w p) \<Longrightarrow> so_hub (w_socket w p) = h \<Longrightarrow>
    hb_calls (w_hub (deliver {|p|} buf w) h) = hb_calls (w_hub w h) @ [WriteMessage buf]"
  by (simp add: socket_send_deliver [symmetric] socket_send_def hub_send_def)

text \<open>Both branches: the handler's answer to \<open>x\<close>, and the refusal of \<open>admin\<close>.\<close>

theorem event_gate_witness:
  "(\<exists>w. processEvent (echo_env ref_ext) 0 \<lparr>fr_Type = FrameEvent, fr_Nsp = ''/'', fr_Event = ''x'', fr_AckID = 3,
        fr_Payload = VNil\<rparr> echo_server = Ok w
      \<and> hb_calls (w_hub w 0) = [WriteMessage (header_bytes FrameConnect ''/'' [] 0),
          WriteMessage (header_bytes FrameAck ''/'' ''x'' 3 @ [0xc3])])
    \<and> (\<exists>w. processEvent (echo_env ref_ext) 0 \<lparr>fr_Type = FrameEvent, fr_Nsp = ''/'', fr_Event = ''admin'', fr_AckID = 4,
        fr_Payload = VNil\<rparr> echo_server = Ok w
      \<and> hb_calls (w_hub w 0) = [WriteMessage (header_bytes FrameConnect ''/'' [] 0),
          WriteMessage (header_bytes FrameAck ''/'' ''error'' 4 @ auth_error_bytes)])"
proof -
  have "behaves (ev_socketMiddleware (echo_env ref_ext) m) s (screen m s)" for m s
    by (simp add: echo_env_def behaves_of_verdict)
  note gate = event_gate [where V = "echo_env ref_ext" and v = screen and p = 0 and w = echo_server, OF this]
  have ext: "ev_ext (echo_env ref_ext) = ref_ext" "ev_Error (echo_env ref_ext) auth_failure = ''ERR_AUTH_FAILURE''"
    by (simp_all add: echo_env_def base_env_def auth_failure_def)
  have "DefaultEncodePayload ref_ext (VBool True) = Ok [0xc3]"
    by (simp add: DefaultEncodePayload_def deflateRaw_def) (simp add: ref_ext_def ref_tokens_def)
  then have "EncodeFrame ref_ext (event_frame FrameAck ''/'' ''x'' 3 (VBool True)) (Some (DefaultSerializers ref_ext))
      = Ok (header_bytes FrameAck ''/'' ''x'' 3 @ [0xc3])"
    by (simp add: EncodeFrame_layout payload_bytes_def event_frame_def opts_header_def DefaultSerializers_def nsp_or_root_def)
  then show ?thesis
    unfolding gate
    by (simp add: echo_server_sel screen_def ext auth_error_frame fmlookup_of_list deliver_one Let_def)
       (simp add: echo_env_def call_ack_def echo_server_sel deliver_one)
qed

subsection \<open>Closing\<close>

text \<open>
  C15. When a connection closes, in any reachable state, exactly the sockets its hub dispatches to leave
  their namespaces, and the hub forgets them; other connections and all rooms are untouched.
\<close>

theorem close_removes_exactly:
  assumes "env_lawful V" and "env_ranges V" and "reachable V cfg w"
  shows "ns_sockets (ns_at (handleClose V h w) nsp)
      = (case fmlookup (hb_sockets (w_hub w h)) nsp of
           Some p \<Rightarrow> ns_sockets (ns_at w nsp) |-| {|p|} | None \<Rightarrow> ns_sockets (ns_at w nsp))
    \<and> hb_sockets (w_hub (handleClose V h w) k) = (if k = h then fmempty else hb_sockets (w_hub w k))
    \<and> w_socket (handleClose V h w) = w_socket w"
proof -
  note inv = reachable_inv [OF assms(3,1,2)]
  show ?thesis
    using handleClose_effect(1,2) [OF assms(2) inv]
    by (auto simp: fset_eq_iff handleClose_effect(4) [OF assms(2) inv] split: option.split)
qed

theorem close_removes_exactly_witness:
  "ns_sockets (ns_at (handleClose (secure_env ref_ext) 0 first_accepted) ''/'') = {||}"
  using close_removes_exactly [OF secure_env_lawful secure_env_ranges first_accepted_reachable, of 0 "''/''" 0]
  by (simp add: first_accepted_def first_root newNamespace_def)

text \<open>Handlers that register no socket leave the hubs' tables as they are.\<close>

lemma foldm_tables:
  assumes "\<And>f s s' k. g f s = Ok s' \<Longrightarrow> hb_sockets (w_hub s' k) = hb_sockets (w_hub s k)"
    and "foldm g fs w = Ok w'"
  shows "hb_sockets (w_hub w' k) = hb_sockets (w_hub w k)"
  using assms(2)
proof (induction fs arbitrary: w)
  case (Cons f fs)
  from Cons.prems obtain u where "g f w = Ok u" "foldm g fs u = Ok w'" by auto
  with Cons.IH assms(1) show ?case by metis
qed simp

lemma connect_frame:
  assumes "DecodeFrame (ev_ext V) raw (Some (hub_serializers V w)) = Ok fr" and "fr_Type fr = FrameConnect"
    and "fr_Nsp fr \<noteq> ''/''"
  shows "handleMessage V h raw w = handleNamespaceConnect V h (fr_Nsp fr) w"
  using assms by (simp add: handleMessage_def)

text \<open>
  C26. A client that connects to a sub-namespace it is already connected to leaves its first socket behind.
  When the second CONNECT frame is accepted the hub's table points to the new socket only; so when the
  connection closes, the first socket stays a member of the namespace, and it is a member in every later
  state, whatever steps follow, since the close of its connection, the one step that could remove it,
  happens once. (Connection handlers are taken not to register sockets themselves, and no late call of
  \<open>next\<close> registers the first socket again before the connection closes.)
\<close>

theorem second_connect_leaks:
  assumes V: "env_lawful V" "env_retains V" "env_ranges V" and w: "reachable V cfg w"
    and first: "fmlookup (hb_sockets (w_hub w h)) nsp = Some p"
    and frame: "DecodeFrame (ev_ext V) raw (Some (hub_serializers V w)) = Ok fr" "fr_Type fr = FrameConnect"
      "fr_Nsp fr = nsp" "nsp \<noteq> ''/''"
    and passes: "\<And>m u. behaves (ev_connMiddleware V m (w_sockets w)) u (v m u)"
      "chain_verdict v (ns_middlewares (ns_at w nsp)) (snd (newSocket V h nsp (hb_handshake (w_hub w h)) w)) = Passes u"
    and handlers: "\<And>f s s' k. ev_connHandler V f (w_sockets w) s = Ok s' \<Longrightarrow> hb_sockets (w_hub s' k) = hb_sockets (w_hub s k)"
    and again: "handleMessage V h raw w = Ok w1"
    and closes: "continues V h w1 w2" "fmlookup (hb_sockets (w_hub w2 h)) nsp \<noteq> Some p"
    and later: "continues V h (handleClose V h w2) w3"
  shows "fmlookup (hb_sockets (w_hub w1 h)) nsp = Some (w_sockets w) \<and> w_sockets w \<noteq> p
    \<and> p |\<in>| ns_sockets (ns_at w3 nsp)"
proof -
  note inv = reachable_inv [OF w V(1,3)]
  have mem: "p |\<in>| ns_sockets (ns_at w nsp)" and hub: "so_hub (w_socket w p) = h"
    using server_invD(6,7) [OF inv first] by blast+
  have p: "p < w_sockets w" and h: "h < w_hubs w" using server_invD(3,5) [OF inv mem] hub by simp_all
  obtain ns where ns: "fmlookup (sv_namespaces w) nsp = Some ns"
    using mem by (cases "fmlookup (sv_namespaces w) nsp") (auto simp: ns_at_def newNamespace_def)
  let ?new = "snd (newSocket V h nsp (hb_handshake (w_hub w h)) w)"
  have new: "newSocket V h nsp (hb_handshake (w_hub w h)) w = (w_sockets w, ?new)"
    by (simp add: newSocket_def Let_def)
  have "connected V h nsp (w_sockets w) (\<lambda>w. exportSchemas (ns_at w nsp)) True u = Ok w1"
    using again connect_frame [OF frame(1,2)] frame(3,4) ns new passes(2) newSocket_sel(10) [OF new]
    by (simp add: handleNamespaceConnect_def runMiddlewares_verdict [OF passes(1)] split: prod.splits)
  then obtain u1 where "hb_sockets (w_hub u1 h) = hb_sockets (w_hub (register_socket h nsp (w_sockets w) u) h)"
    and "fireConnection V nsp (w_sockets w) u1 = Ok w1"
    by (rule connected_passed) blast
  then have "fmlookup (hb_sockets (w_hub w1 h)) nsp = Some (w_sockets w)"
    using foldm_tables [where g = "\<lambda>f. ev_connHandler V f (w_sockets w)", OF handlers] by (simp add: fireConnection_def)
  moreover have "p |\<in>| ns_sockets (ns_at w3 nsp)"
  proof -
    from server_step.message [OF h again] have step: "continues V h w w1"
      by (rule continues_step [OF continues_refl]) simp
    have w1: "server_inv w1 \<and> p |\<in>| ns_sockets (ns_at w1 nsp) \<and> so_hub (w_socket w1 p) = h"
      by (rule continues_member [OF step V inv mem hub])
    then have w2: "server_inv w2 \<and> p |\<in>| ns_sockets (ns_at w2 nsp) \<and> so_hub (w_socket w2 p) = h"
      using continues_member [OF closes(1) V] by blast
    then have inv2: "server_inv w2" ..
    have "server_inv (handleClose V h w2)"
      using handleClose_effect(5) [OF V(3) inv2] inv2 by (simp add: evolves_def)
    moreover have "p |\<in>| ns_sockets (ns_at (handleClose V h w2) nsp)"
      using handleClose_effect(4) [OF V(3) inv2] w2 closes(2) by simp
    moreover have "so_hub (w_socket (handleClose V h w2) p) = h"
      using handleClose_effect(1) [OF V(3) inv2] w2 by simp
    ultimately show ?thesis using continues_member [OF later V] by blast
  qed
  ultimately show ?thesis using p by simp
qed

text \<open>A server with a namespace \<open>/chat\<close>, whose client sends its CONNECT frame once, and then again.\<close>

definition chat_open :: world where
  "chat_open = snd (snd (open_connection (secure_env ref_ext) blank_handshake (Of ''/chat'' (New ref_ext plain_cfg))))"

definition connect_chat :: "byte list" where
  "connect_chat = header_bytes FrameConnect ''/chat'' [] 0"

definition accept_chat :: "world \<Rightarrow> world" where
  "accept_chat w = (case newSocket (secure_env ref_ext) 0 ''/chat'' (hb_handshake (w_hub w 0)) w of (p, w) \<Rightarrow>
     socket_send p connect_chat (register_socket 0 ''/chat'' p w))"

lemma connect_chat_decodes:
  "\<exists>fr. DecodeFrame ref_ext (full_slice connect_chat) ser = Ok fr \<and> fr_Type fr = FrameConnect \<and> fr_Nsp fr = ''/chat''"
proof -
  have "DecodeFrameHeader (full_slice connect_chat) = Ok (\<lparr>fh_Type = FrameConnect, fh_Nsp = ''/chat'', fh_Event = [], fh_AckID = 0\<rparr>,
      \<lparr>sl_data = [], sl_spare = []\<rparr>)"
    using DecodeFrameHeader_header_bytes [of "full_slice connect_chat" FrameConnect "''/chat''" "[]" 0 "[]"]
    by (simp add: full_slice_def connect_chat_def)
  then show ?thesis by (simp add: DecodeFrame_def sl_len_def)
qed

lemma accept_chat_message:
  assumes "fmlookup (sv_namespaces w) ''/chat'' = Some ns" and "ns_middlewares ns = []" and "ns_connHandlers ns = []"
    and "\<not> sv_useSchemas w"
  shows "handleMessage (secure_env ref_ext) 0 (full_slice connect_chat) w = Ok (accept_chat w)"
proof -
  obtain fr where fr: "DecodeFrame ref_ext (full_slice connect_chat) (Some (hub_serializers (secure_env ref_ext) w)) = Ok fr"
    "fr_Type fr = FrameConnect" "fr_Nsp fr = ''/chat''"
    using connect_chat_decodes by blast
  have "ns_at w ''/chat'' = ns" using assms(1) by (simp add: ns_at_def)
  with assms fr show ?thesis
    by (auto simp: connect_frame handleNamespaceConnect_def accept_chat_def newSocket_def runMiddlewares_def connected_def
        fireConnection_def connect_chat_def nsp_or_root_def Let_def split: prod.split)
qed

lemma accept_chat_sel:
  "fmdom (sv_namespaces (accept_chat w)) = finsert ''/chat'' (fmdom (sv_namespaces w))"
  "ns_middlewares (ns_at (accept_chat w) ''/chat'') = ns_middlewares (ns_at w ''/chat'')"
  "ns_connHandlers (ns_at (accept_chat w) ''/chat'') = ns_connHandlers (ns_at w ''/chat'')"
  "sv_useSchemas (accept_chat w) = sv_useSchemas w" "w_hubs (accept_chat w) = w_hubs w"
  "fmlookup (hb_sockets (w_hub (accept_chat w) 0)) ''/chat'' = Some (w_sockets w)"
  by (simp_all add: accept_chat_def newSocket_def Let_def register_socket_def addSocket_def add_member_def
      socket_send_def hub_send_def)

lemma chat_open_sel:
  "ns_at chat_open ''/chat'' = newNamespace ''/chat''" "sv_useSchemas chat_open = False"
  "fmlookup (sv_namespaces chat_open) ''/chat'' = Some (newNamespace ''/chat'')"
  "w_hubs chat_open = 1" "w_sockets chat_open = 1"
  by (simp_all add: chat_open_def open_connection_def newConnHub_def newSocket_def New_def Of_def Let_def
      upd_hub_def upd_socket_def ns_at_def newNamespace_def plain_cfg_def)

lemma chat_open_reachable: "reachable (secure_env ref_ext) plain_cfg chat_open"
proof -
  have "reachable (secure_env ref_ext) plain_cfg (New ref_ext plain_cfg)"
    using reachable.start [of "secure_env ref_ext" plain_cfg] by simp
  then have "reachable (secure_env ref_ext) plain_cfg (Of ''/chat'' (New ref_ext plain_cfg))"
    by (rule reachable.step) (rule server_step.namespace)
  moreover obtain h p where "open_connection (secure_env ref_ext) blank_handshake (Of ''/chat'' (New ref_ext plain_cfg)) = (h, p, chat_open)"
    unfolding chat_open_def by (metis prod.collapse)
  ultimately show ?thesis using reachable.step server_step.accept by blast
qed

text \<open>The second accept displaces socket 1 by socket 2; after the close, and a broadcast, socket 1 is still there.\<close>

theorem second_connect_leaks_witness:
  "\<exists>w1 w2 w3. handleMessage (secure_env ref_ext) 0 (full_slice connect_chat) chat_open = Ok w1
    \<and> handleMessage (secure_env ref_ext) 0 (full_slice connect_chat) w1 = Ok w2
    \<and> emitExcluding (secure_env ref_ext) ''/chat'' ''news'' VNil None (handleClose (secure_env ref_ext) 0 w2) = Ok w3
    \<and> fmlookup (hb_sockets (w_hub w2 0)) ''/chat'' = Some 2 \<and> 1 |\<in>| ns_sockets (ns_at w3 ''/chat'')"
proof -
  let ?V = "secure_env ref_ext" and ?w1 = "accept_chat chat_open"
  let ?w2 = "accept_chat ?w1"
  have 1: "handleMessage ?V 0 (full_slice connect_chat) chat_open = Ok ?w1"
    by (rule accept_chat_message [OF chat_open_sel(3)]) (simp_all add: chat_open_sel newNamespace_def)
  obtain ns where ns: "fmlookup (sv_namespaces ?w1) ''/chat'' = Some ns"
    using accept_chat_sel(1) [of chat_open] by (metis fmdomE finsertI1)
  then have at: "ns = ns_at ?w1 ''/chat''" by (simp add: ns_at_def)
  have mw: "ns_middlewares (ns_at ?w1 ''/chat'') = []" "ns_connHandlers (ns_at ?w1 ''/chat'') = []"
    by (simp_all add: accept_chat_sel chat_open_sel) (simp_all add: newNamespace_def)
  have 2: "handleMessage ?V 0 (full_slice connect_chat) ?w1 = Ok ?w2"
    by (rule accept_chat_message [OF ns]) (simp_all add: at mw, simp add: accept_chat_sel chat_open_sel)
  have reach: "reachable ?V plain_cfg ?w1"
    by (rule reachable.step [OF chat_open_reachable server_step.message [OF _ 1]]) (simp add: chat_open_sel)
  have first: "fmlookup (hb_sockets (w_hub ?w1 0)) ''/chat'' = Some 1"
    by (simp add: accept_chat_sel chat_open_sel)
  have count: "w_sockets ?w1 = 2"
    by (simp add: accept_chat_def newSocket_def Let_def chat_open_sel register_socket_def addSocket_def)
  have second: "fmlookup (hb_sockets (w_hub ?w2 0)) ''/chat'' \<noteq> Some 1"
    by (simp add: accept_chat_sel count)
  obtain fr where fr: "DecodeFrame ref_ext (full_slice connect_chat) (Some (hub_serializers ?V ?w1)) = Ok fr"
    "fr_Type fr = FrameConnect" "fr_Nsp fr = ''/chat''"
    using connect_chat_decodes by blast
  have quiet: "ev_connHandler ?V f q s = Ok s' \<Longrightarrow> hb_sockets (w_hub s' k) = hb_sockets (w_hub s k)" for f q s s' k
    by (auto simp: secure_env_def on_connection_def socket_OnSchema_def socket_On_def)
  have "\<exists>w3. emitExcluding ?V ''/chat'' ''news'' VNil None (handleClose ?V 0 ?w2) = Ok w3"
    by (simp add: emitExcluding_def)
  then obtain w3 where 3: "emitExcluding ?V ''/chat'' ''news'' VNil None (handleClose ?V 0 ?w2) = Ok w3" by blast
  then have "continues ?V 0 (handleClose ?V 0 ?w2) w3"
    by (rule continues_step [OF continues_refl server_step.emit]) simp
  from second_connect_leaks [OF secure_env_lawful secure_env_retains secure_env_ranges reach first _ fr(2,3) _
      token_behaves _ quiet 2 continues_refl second this] fr(1)
  have "fmlookup (hb_sockets (w_hub ?w2 0)) ''/chat'' = Some 2 \<and> 1 |\<in>| ns_sockets (ns_at w3 ''/chat'')"
    by (simp add: mw count)
  with 1 2 3 show ?thesis by blast
qed

text \<open>
  C27. A connection that closes before its root middleware has decided leaves a socket behind when the
  middleware then passes: the socket joins the root namespace after the read loop's only close has run,
  and it is a member in every later state, whatever steps follow.
\<close>

theorem late_approval_leaks:
  assumes V: "env_lawful V" "env_retains V" "env_ranges V" and w: "reachable V cfg w"
    and opens: "open_connection V hs w = (h, p, w1)"
    and closes: "continues V h w1 w2" "continues V h (handleClose V h w2) w3"
    and approved: "connected V h ''/'' p ex True w3 = Ok w4" and later: "continues V h w4 w5"
  shows "p |\<in>| ns_sockets (ns_at w5 ''/'')"
proof -
  have inv1: "server_inv w1"
    using reachable_inv [OF w V(1,3)] invariant_law.R_open_connection [OF opens] by (simp add: evolves_def)
  have e12: "evolves w1 w2" by (rule continues_grows [OF closes(1) V(1,3) inv1])
  then have inv2: "server_inv w2" using inv1 by (simp add: evolves_def)
  have e23: "evolves w2 (handleClose V h w2)" by (rule handleClose_effect(5) [OF V(3) inv2])
  have e3: "evolves (handleClose V h w2) w3"
    by (rule continues_grows [OF closes(2) V(1,3)]) (use e23 inv2 in \<open>simp add: evolves_def\<close>)
  have ev: "evolves w1 w3" using e12 e23 e3 invariant_law.R_trans by blast
  have own: "owned w3 h ''/'' p"
    using owned_grows open_connection_owned [OF opens] ev unfolding evolves_def by blast
  have "owned w4 h ''/'' p \<and> server_inv w4"
    using invariant_law.R_connected [OF env_laws(1) [OF V(1)] own approved] own inv1 ev owned_grows
    unfolding evolves_def by blast
  moreover obtain u where "ns_at u = ns_at (register_socket h ''/'' p w3)" and "fireConnection V ''/'' p u = Ok w4"
    using approved by (rule connected_passed)
  then have "retains u w4"
    unfolding fireConnection_def by (intro member_law.obeys_foldm) (auto intro: env_obeysD(2) [OF env_laws(2) [OF V(2)]])
  with \<open>ns_at u = ns_at (register_socket h ''/'' p w3)\<close> have "p |\<in>| ns_sockets (ns_at w4 ''/'')"
    by (intro retainsD [OF \<open>retains u w4\<close>]) simp
  ultimately show ?thesis using continues_member [OF later V] by (auto simp: owned_def)
qed

theorem late_approval_leaks_witness:
  "\<exists>w4. connected (secure_env ref_ext) 0 ''/'' 0 (\<lambda>_. VNil) True (handleClose (secure_env ref_ext) 0 first_connection) = Ok w4
    \<and> 0 |\<in>| ns_sockets (ns_at (Join 0 ''lobby'' w4) ''/'')"
proof -
  let ?V = "secure_env ref_ext"
  let ?c = "handleClose ?V 0 first_connection"
  have c: "?c = upd_hub 0 (\<lambda>hb. hb\<lparr>hb_sockets := fmempty\<rparr>) first_connection"
    by (simp add: handleClose_def first_connection_sel secure_env_def base_env_def sorted_list_of_fset.rep_eq)
  have ch: "ns_connHandlers (ns_at first_connection ''/'') = []" by (rule first_connection_sel)
  have "\<exists>w4. connected ?V 0 ''/'' 0 (\<lambda>_. VNil) True ?c = Ok w4"
    using ch by (simp add: connected_def fireConnection_def Let_def c)
  then obtain w4 where w4: "connected ?V 0 ''/'' 0 (\<lambda>_. VNil) True ?c = Ok w4" by blast
  have "continues ?V 0 w4 (Join 0 ''lobby'' w4)"
    by (rule continues_step [OF continues_refl server_step.join]) simp
  moreover have "reachable ?V plain_cfg (New ref_ext plain_cfg)"
    using reachable.start [of ?V plain_cfg] by simp
  ultimately show ?thesis
    using late_approval_leaks [OF secure_env_lawful secure_env_retains secure_env_ranges _ first_open continues_refl
        continues_refl w4] w4 by blast
qed

subsection \<open>The schema export\<close>

text \<open>
  The export keys tell namespaces apart, with one exception: a namespace called \<open>/root\<close> shares its
  key with the root namespace.
\<close>

lemma export_keys_collide_only_at_root:
  assumes "hd n = CHR ''/''" and "hd m = CHR ''/''" and "n \<noteq> []" and "m \<noteq> []"
  shows "schemaExportKey n = schemaExportKey m \<longleftrightarrow> n = m \<or> {n, m} = {''/'', ''/root''}"
proof -
  obtain a b where ab: "n = CHR ''/'' # a" "m = CHR ''/'' # b"
    using assms by (cases n; cases m) auto
  have key: "schemaExportKey (CHR ''/'' # c) = (if c = [] then ''root'' else c)" for c
    by (simp add: schemaExportKey_def TrimPrefix_def)
  have pair: "{n, m} = {''/'', ''/root''} \<longleftrightarrow> (a = [] \<and> b = ''root'') \<or> (a = ''root'' \<and> b = [])"
    unfolding ab doubleton_eq_iff by simp
  show ?thesis
    unfolding pair unfolding ab key by (cases "a = []"; cases "b = []") (simp_all add: eq_commute)
qed

lemma fold_fmupd_key:
  assumes "inj_on key (set ns)"
  shows "fmlookup (fold (\<lambda>n out. fmupd (key n) (f n) out) ns out) k =
    (case find (\<lambda>n. key n = k) ns of Some n \<Rightarrow> Some (f n) | None \<Rightarrow> fmlookup out k)"
  using assms
proof (induction ns arbitrary: out)
  case Nil
  then show ?case by simp
next
  case (Cons n ns)
  have "find (\<lambda>m. key m = k) ns = None \<or> (\<exists>m. find (\<lambda>m. key m = k) ns = Some m \<and> m = n)" if "key n = k"
  proof (cases "find (\<lambda>m. key m = k) ns")
    case (Some m)
    then have "m \<in> set ns" "key m = k" by (auto simp: find_Some_iff)
    with Cons.prems that have "m = n" by (auto simp: inj_on_def)
    with Some show ?thesis by simp
  qed simp
  then show ?case using Cons by (fastforce split: option.split)
qed

lemma export_by_lookup:
  assumes "env_ranges V" and "inj_on schemaExportKey (fset (fmdom (sv_namespaces w)))"
    and "nsp |\<in>| fmdom (sv_namespaces w)"
  shows "fmlookup (export_by V f w) (schemaExportKey nsp) = Some (f (ns_at w nsp))"
proof -
  let ?ns = "ev_rangeNames V w (fmdom (sv_namespaces w))"
  have range: "set ?ns = fset (fmdom (sv_namespaces w))" using assms(1) by simp
  obtain m where m: "find (\<lambda>n. schemaExportKey n = schemaExportKey nsp) ?ns = Some m"
    using assms(3) range by (cases "find (\<lambda>n. schemaExportKey n = schemaExportKey nsp) ?ns") (auto simp: find_None_iff)
  then have "m \<in> set ?ns" "schemaExportKey m = schemaExportKey nsp" by (auto simp: find_Some_iff)
  with assms(2,3) range have "m = nsp" by (auto simp: inj_on_def)
  with m show ?thesis
    using fold_fmupd_key [of schemaExportKey ?ns "\<lambda>n. f (ns_at w n)" fmempty "schemaExportKey nsp"]
      assms(2) range
    by (simp add: export_by_def)
qed

text \<open>
  C24. What a connecting client is sent and what \<open>Schemas\<close> reports agree, and lose nothing: under each
  namespace's key stands exactly that namespace's table, as long as no two namespaces share a key.
\<close>

theorem schema_export_complete:
  assumes "env_ranges V" and "inj_on schemaExportKey (fset (fmdom (sv_namespaces w)))"
    and "nsp |\<in>| fmdom (sv_namespaces w)"
  shows "fmlookup (Schemas V w) (schemaExportKey nsp) = Some (ns_schemas (ns_at w nsp))
    \<and> (\<exists>out. exportAllSchemas V w = VMap out \<and> fmlookup out (schemaExportKey nsp)
         = Some (export_table (fmmap sc_Definition (ns_schemas (ns_at w nsp)))))"
  using export_by_lookup [OF assms, of ns_schemas] export_by_lookup [OF assms, of exportSchemas]
  by (simp add: Schemas_def exportAllSchemas_def exportSchemas_def export_table_def fmap.map_comp comp_def)

theorem schema_export_complete_witness:
  "fmlookup (Schemas (secure_env ref_ext) (secure_server ref_ext)) ''secure-gateway''
    = Some (fmap_of_list [(''SYNC_TEST'', syncSchema)])"
proof -
  have dom: "fset (fmdom (sv_namespaces (secure_server ref_ext))) = {''/'', gateway}"
    by (auto simp: secure_server_def ns_OnConnection_def ns_Use_def ns_Schema_def Of_def New_def gateway_def)
  have "ns_schemas (ns_at (secure_server ref_ext) gateway) = fmap_of_list [(''SYNC_TEST'', syncSchema)]"
    by (simp add: secure_server_def ns_OnConnection_def ns_Use_def ns_Schema_def Of_def New_def gateway_def
        ns_at_def newNamespace_def syncSchema_def upd_ns_def)
  moreover have "schemaExportKey gateway = ''secure-gateway''"
    by (simp add: schemaExportKey_def TrimPrefix_def gateway_def)
  moreover have "inj_on schemaExportKey {''/'', gateway}"
    by (simp add: inj_on_def schemaExportKey_def TrimPrefix_def gateway_def)
  ultimately show ?thesis
    using schema_export_complete [OF secure_env_ranges, of "secure_server ref_ext" gateway] dom by simp
qed

subsection \<open>Origins\<close>

text \<open>
  The origin check admits exactly the configured origins, everything if \<open>*\<close> is among them, and
  everything if none is configured.
\<close>

lemma origin_check:
  "originAllowed (New E cfg) origin \<longleftrightarrow>
     cfg_CORSOrigins cfg = [] \<or> ''*'' \<in> set (cfg_CORSOrigins cfg) \<or> origin \<in> set (cfg_CORSOrigins cfg)"
proof -
  have "origin_in as origin \<longleftrightarrow> ''*'' \<in> set as \<or> origin \<in> set as" for as
    by (induction as) auto
  moreover have "sv_allowedOrigins (Of n w) = sv_allowedOrigins w" for n w
    by (simp add: Of_def split: option.split)
  ultimately show ?thesis by (auto simp: originAllowed_def New_def)
qed

text \<open>
  C37. The origin gate, in every state the server reaches: a request becomes a connection only if its
  \<open>Origin\<close> is configured, or \<open>*\<close> is, or nothing is; any other request is answered with status 403 and
  changes nothing.
\<close>

theorem origin_gate:
  assumes "env_lawful V" and "env_ranges V" and "reachable V cfg w"
  shows "httpHandler V upgraded now r w =
    (if cfg_CORSOrigins cfg = [] \<or> ''*'' \<in> set (cfg_CORSOrigins cfg)
        \<or> header_Get (rq_Header r) ''Origin'' \<in> set (cfg_CORSOrigins cfg)
     then if upgraded
       then andThen (handleConnection V \<lparr>hs_Headers = rq_Header r, hs_URL = rq_URL r, hs_Time = now\<rparr> w) (\<lambda>w. Ok (None, w))
       else Ok (None, w)
     else Ok (Some (HTTPError ''origin not allowed'' 403), w))"
proof -
  have "originAllowed w origin = originAllowed (New (ev_ext V) cfg) origin" for origin
    by (simp add: originAllowed_def reachable_config [OF assms(3,1,2)])
  then show ?thesis by (simp add: httpHandler_def origin_check)
qed

theorem origin_gate_witness:
  "httpHandler (secure_env ref_ext) True 0 \<lparr>rq_Header = [(''Origin'', [''https://evil.example''])], rq_URL = ''/''\<rparr>
      (New ref_ext (plain_cfg\<lparr>cfg_CORSOrigins := [''https://good.example'']\<rparr>))
    = Ok (Some (HTTPError ''origin not allowed'' 403), New ref_ext (plain_cfg\<lparr>cfg_CORSOrigins := [''https://good.example'']\<rparr>))"
proof -
  have "ev_ext (secure_env ref_ext) = ref_ext" by (simp add: secure_env_def base_env_def)
  then have "reachable (secure_env ref_ext) cfg (New ref_ext cfg)" for cfg
    using reachable.start [of "secure_env ref_ext" cfg] by simp
  from origin_gate [OF secure_env_lawful secure_env_ranges this] show ?thesis
    by (simp add: header_Get_def)
qed

end
