(* ===== verification/Client_Properties.thy ===== *)
theory Client_Properties
  imports Client_Invariant Reference_Libs
begin

text \<open>
  \<open>examples/client/main.go\<close> as an environment of the client model, and the properties of the client
  package: heartbeats, acknowledgements, reconnection.
\<close>

subsection \<open>The example client\<close>

text \<open>
  Handler 0 is the \<open>connect\<close> handler; the others, and the acknowledgement callback, only log. Handlers
  emit through the client they were made for, which is the store they run on.
\<close>

definition quiet_env :: "externals \<Rightarrow> client_env" where
  "quiet_env E =
     \<lparr>cv_ext = E, cv_handler = (\<lambda>h data. Ok), cv_ackCallback = (\<lambda>cb data. Ok),
      cv_middleware = (\<lambda>m next. next None), cv_rangeNames = (\<lambda>c S. sorted_list_of_fset S),
      cv_Dial = (\<lambda>c. Some (cl_fresh c)), cv_WriteMessage = (\<lambda>c buf. None), cv_rand = (\<lambda>c. 1 / 2), cv_stack = 1000\<rparr>"

definition provision_payload :: goval where
  "provision_payload = VMap (fmap_of_list [(''endpoints'', VMap (fmap_of_list [(''createUser'',
     VMap (fmap_of_list [(''serverType'', VString ''GRPC'')]))]))])"

definition example_env :: "externals \<Rightarrow> client_env" where
  "example_env E = (quiet_env E)\<lparr>cv_handler := (\<lambda>h data c.
     if h = 0 then client_EmitAck (quiet_env E) ''cluster:provision'' provision_payload (Some 0) c else Ok c)\<rparr>"

definition example_url :: gostring where
  "example_url = ''ws://localhost:5000''"

definition example_options :: options where
  "example_options =
     \<lparr>op_Nsp = ''/secure-gateway'', op_Serializers = None, op_UseSchemas = None, op_AutoReconnect = None,
      op_MaxAttempts = 0, op_BaseDelay = 0, op_MaxDelay = 0, op_PingInterval = 0, op_PongTimeout = 0,
      op_Headers = [(''X-Auth-Token'', [''enterprise-payload-passkey''])]\<rparr>"

definition example_client :: "externals \<Rightarrow> client" where
  "example_client E =
     client_On ''reconnecting'' 3 (client_On ''disconnect'' 2 (client_On ''cluster:sync'' 1 (client_On ''connect'' 0
       (client_New E example_url example_options))))"

text \<open>It keeps whatever an emit keeps, since it does nothing else.\<close>

lemma example_env_keeps:
  assumes "\<And>V event payload cb nsp. keeps_step I (doEmit V event payload cb nsp)"
  shows "client_env_keeps I (example_env E)"
proof -
  have "keeps_step I (cv_handler (example_env E) h data)" for h data
    using assms
    by (auto simp: keeps_step_def example_env_def client_EmitAck_def channel_EmitAck_def split: if_splits)
  moreover have "keeps_step I (cv_ackCallback (example_env E) cb data)" for cb data
    by (simp add: keeps_step_def example_env_def quiet_env_def)
  moreover have "keeps_middleware J (cv_middleware (example_env E) m)" for m J
    by (simp add: keeps_middleware_def example_env_def quiet_env_def)
  ultimately show ?thesis by (simp add: client_env_keeps_def)
qed

lemma example_env_lawful: "client_lawful (example_env E)"
  unfolding client_lawful_def
  by (rule example_env_keeps) (auto simp: keeps_step_def intro: same_core_inv doEmit_core)

lemma doEmit_closed: "keeps_step cl_closedByUser (doEmit V event payload cb nsp)"
  by (auto simp: keeps_step_def doEmit_def Let_def send_frame_def if_encoded_def safeSend_def
      split: option.splits res.splits)

lemma example_client_reachable: "client_reachable (example_env E) example_url example_options (example_client E)"
  unfolding example_client_def client_On_def
  by (intro client_reachable.step [OF _ client_step.listen])
     (use client_reachable.start [of "example_env E" example_url example_options] in \<open>simp add: example_env_def quiet_env_def\<close>)

text \<open>The example connected on connection 5.\<close>

definition example_connected :: "externals \<Rightarrow> client" where
  "example_connected E = (example_client E)\<lparr>cl_conn := Some 5\<rparr>"

lemma example_sel:
  "fmdom (cl_namespaces (example_connected E)) = {|''/secure-gateway''|}"
  "cl_conn (example_connected E) = Some 5" "cl_pongTimer (example_connected E) = None"
  "cl_serializers (example_connected E) = DefaultSerializers E" "cl_fresh (example_connected E) = 0"
  "cl_timers (example_connected E) = fmempty" "cl_calls (example_connected E) = []"
  "cl_ackCounter (example_connected E) = 1" "cl_ackCallbacks (example_connected E) = fmempty"
  by (simp_all add: example_connected_def example_client_def client_On_def channel_On_def upd_channel_def
      client_New_def example_options_def Let_def client_newNamespace_def ensureSchemaBucket_def with_bucket_def)

subsection \<open>Invariant\<close>

text \<open>
  C8. In every state a client reaches, by any order of messages, heartbeats, timers, disconnections and
  user calls: setting up and cleaning up the heartbeat never panics (no channel is closed twice, the
  ticker's interval is positive), the attempt counter stays within its limit, and every pending
  reconnection is one of the allowed attempts and waits no longer than the maximum delay.
\<close>

theorem client_invariant:
  assumes "client_lawful V" and "client_reachable V url opts c"
  shows "(\<exists>c'. setupHeartbeat c = Ok c') \<and> (\<exists>c'. cleanupHeartbeat c = Ok c')
    \<and> 0 \<le> cl_reconnectAttempts c \<and> cl_reconnectAttempts c \<le> cl_maxAttempts c
    \<and> (\<forall>t n d. fmlookup (cl_timers c) t = Some (Reconnect n d) \<longrightarrow>
         1 \<le> n \<and> n \<le> cl_maxAttempts c \<and> d \<le> cl_maxDelay c)"
proof -
  have inv: "client_inv c" by (rule client_reachable_inv [OF assms(2,1)])
  then have "attempts_ok c" by (simp add: client_inv_def)
  with setupHeartbeat_ok [OF inv] cleanupHeartbeat_ok [OF inv] show ?thesis
    unfolding attempts_ok_def by blast
qed

theorem client_invariant_witness:
  "\<exists>c'. setupHeartbeat (example_client ref_ext) = Ok c'"
  using client_invariant [OF example_env_lawful example_client_reachable] by blast

subsection \<open>Heartbeat\<close>

lemma ping_tick:
  assumes "cl_conn c = Some k" and "cv_WriteMessage V c (header_bytes FramePing ''/'' [] 0) = None"
  shows "heartbeat_tick V c =
    Ok (armPongTimeout (c\<lparr>cl_calls := cl_calls c @ [(k, WriteMessage (header_bytes FramePing ''/'' [] 0))]\<rparr>))"
  using assms by (simp add: heartbeat_tick_def safeSend_def nsp_or_root_def)

lemma decode_pong:
  assumes "sl_data raw = header_bytes FramePong ''/'' [] 0"
  shows "\<exists>b. DecodeFrameHeader raw = Ok (\<lparr>fh_Type = FramePong, fh_Nsp = ''/'', fh_Event = [], fh_AckID = 0\<rparr>, b)"
  using DecodeFrameHeader_header_bytes [of raw FramePong "''/''" "[]" 0 "[]"] assms by simp

lemma frame_type_neq [simp]:
  "FramePong \<noteq> FrameConnect" "FramePong \<noteq> FrameEvent" "FramePong \<noteq> FrameAck" "FrameAck \<noteq> FrameConnect"
  "FrameAck \<noteq> FrameEvent" "FrameEvent \<noteq> FrameConnect" "FramePing \<noteq> FrameConnect" "FramePing \<noteq> FrameEvent"
  "FramePing \<noteq> FrameJoin" "FramePing \<noteq> FrameLeave" "FrameJoin \<noteq> FrameConnect" "FrameJoin \<noteq> FrameEvent"
  by (simp_all add: frame_types)

text \<open>
  C25. A client that has no \<open>/\<close> namespace never sees the answer to its own pings: it pings on \<open>/\<close>, drops
  the pong that comes back on \<open>/\<close>, so the timeout the ping armed stays pending, and when it fires it
  closes a healthy connection.
\<close>

theorem pong_lost_off_root:
  assumes "fmlookup (cl_namespaces c) ''/'' = None" and "cl_conn c = Some k"
    and "cv_WriteMessage V c (header_bytes FramePing ''/'' [] 0) = None"
    and "sl_data raw = header_bytes FramePong ''/'' [] 0"
  shows "\<exists>c1 t. heartbeat_tick V c = Ok c1 \<and> client_handleMessage V raw c1 = Ok c1
    \<and> fmlookup (cl_timers c1) t = Some PongTimeout
    \<and> (\<exists>c2. timer_fires V t c1 = Ok c2 \<and> last (cl_calls c2) = (k, CloseConn))"
proof -
  let ?c0 = "c\<lparr>cl_calls := cl_calls c @ [(k, WriteMessage (header_bytes FramePing ''/'' [] 0))]\<rparr>"
  let ?c1 = "armPongTimeout ?c0"
  have sel: "cl_namespaces ?c1 = cl_namespaces c" "cl_conn ?c1 = Some k"
    "fmlookup (cl_timers ?c1) (cl_fresh c) = Some PongTimeout"
    using assms(2) by (auto simp: armPongTimeout_def Let_def AfterFunc_def stop_timer_def split: option.split)
  moreover obtain b where "DecodeFrameHeader raw = Ok (\<lparr>fh_Type = FramePong, fh_Nsp = ''/'', fh_Event = [], fh_AckID = 0\<rparr>, b)"
    using decode_pong [OF assms(4)] by blast
  ultimately have "client_handleMessage V raw ?c1 = Ok ?c1"
    using assms(1) by (simp add: client_handleMessage_def getNamespace_def)
  moreover have "\<exists>c2. timer_fires V (cl_fresh c) ?c1 = Ok c2 \<and> last (cl_calls c2) = (k, CloseConn)"
    using sel by (simp add: timer_fires_def close_conn_def)
  ultimately show ?thesis using ping_tick [OF assms(2,3)] sel(3) by blast
qed

theorem pong_lost_off_root_witness:
  "\<exists>c1 t c2. heartbeat_tick (example_env ref_ext) (example_connected ref_ext) = Ok c1
    \<and> timer_fires (example_env ref_ext) t c1 = Ok c2 \<and> last (cl_calls c2) = (5, CloseConn)"
proof -
  have "fmlookup (cl_namespaces (example_connected ref_ext)) ''/'' = None"
    by (metis example_sel(1) fmdom_notD fsingletonE list.inject list.distinct(1))
  moreover have "cv_WriteMessage (example_env ref_ext) (example_connected ref_ext) (header_bytes FramePing ''/'' [] 0) = None"
    by (simp add: example_env_def quiet_env_def)
  ultimately show ?thesis
    using pong_lost_off_root [OF _ example_sel(2), where V = "example_env ref_ext"
        and raw = "full_slice (header_bytes FramePong ''/'' [] 0)"]
    by (simp add: full_slice_def) blast
qed

text \<open>
  A client with a \<open>/\<close> namespace clears the timeout when the pong arrives: no pong timer is left
  pending from that ping.
\<close>

lemma pong_clears_timeout:
  assumes "fmlookup (cl_namespaces c) ''/'' \<noteq> None" and "cl_conn c = Some k"
    and "cv_WriteMessage V c (header_bytes FramePing ''/'' [] 0) = None"
    and "sl_data raw = header_bytes FramePong ''/'' [] 0"
  shows "\<exists>c1 c2 t. heartbeat_tick V c = Ok c1 \<and> fmlookup (cl_timers c1) t = Some PongTimeout
    \<and> cl_calls c1 = cl_calls c @ [(k, WriteMessage (header_bytes FramePing ''/'' [] 0))]
    \<and> client_handleMessage V raw c1 = Ok c2 \<and> cl_pongTimer c2 = None \<and> fmlookup (cl_timers c2) t = None
    \<and> cl_conn c2 = Some k"
proof -
  let ?c0 = "c\<lparr>cl_calls := cl_calls c @ [(k, WriteMessage (header_bytes FramePing ''/'' [] 0))]\<rparr>"
  let ?c1 = "armPongTimeout ?c0"
  have sel: "cl_namespaces ?c1 = cl_namespaces c" "cl_conn ?c1 = Some k" "cl_pongTimer ?c1 = Some (cl_fresh c)"
    "fmlookup (cl_timers ?c1) (cl_fresh c) = Some PongTimeout" "cl_calls ?c1 = cl_calls ?c0"
    using assms(2) by (auto simp: armPongTimeout_def Let_def AfterFunc_def stop_timer_def split: option.split)
  moreover obtain b where "DecodeFrameHeader raw = Ok (\<lparr>fh_Type = FramePong, fh_Nsp = ''/'', fh_Event = [], fh_AckID = 0\<rparr>, b)"
    using decode_pong [OF assms(4)] by blast
  ultimately have "client_handleMessage V raw ?c1 = Ok (clearPongTimeout ?c1)"
    using assms(1) by (auto simp: client_handleMessage_def getNamespace_def)
  moreover have "cl_pongTimer (clearPongTimeout ?c1) = None" "fmlookup (cl_timers (clearPongTimeout ?c1)) (cl_fresh c) = None"
    "cl_conn (clearPongTimeout ?c1) = Some k"
    using sel by (simp_all add: clearPongTimeout_def stop_timer_def)
  ultimately show ?thesis
    using ping_tick [OF assms(2,3)] sel(4,5) by (intro exI [of _ ?c1] exI [of _ "clearPongTimeout ?c1"] exI [of _ "cl_fresh c"]) simp
qed

subsection \<open>Acknowledgements\<close>

text \<open>What an emit does to the client, apart from the bytes it sends.\<close>

lemma doEmit_state:
  assumes "doEmit V event payload (Some cb) nsp c = Ok c'"
  shows "cl_ackCounter c' = cl_ackCounter c + 1
    \<and> cl_ackCallbacks c' = fmupd (cl_ackCounter c) cb (cl_ackCallbacks c)
    \<and> cl_namespaces c' = cl_namespaces c \<and> cl_schemas c' = cl_schemas c \<and> cl_serializers c' = cl_serializers c"
proof -
  let ?c = "c\<lparr>cl_ackCallbacks := fmupd (cl_ackCounter c) cb (cl_ackCallbacks c), cl_ackCounter := cl_ackCounter c + 1\<rparr>"
  obtain opts ser where "send_frame V opts ser ?c = Ok c'"
    using assms by (auto simp: doEmit_def Let_def)
  then show ?thesis
    by (cases "EncodeFrame (cv_ext V) opts (Some ser)")
       (auto simp: send_frame_def safeSend_def split: option.splits)
qed

text \<open>
  C17. Exactly once: the acknowledgement of a request runs that request's callback with the decoded
  payload, after forgetting it, so a repetition of the same frame runs nothing.
\<close>

theorem ack_runs_once:
  assumes "doEmit V event payload (Some cb) nsp c = Ok c1"
    and "DecodeFrameHeader raw = Ok (\<lparr>fh_Type = FrameAck, fh_Nsp = nsp, fh_Event = ev, fh_AckID = cl_ackCounter c\<rparr>, b)"
    and "fmlookup (cl_namespaces c) nsp \<noteq> None" and "decodeAppPayload V c b ev nsp = Ok v"
  shows "client_handleMessage V raw c1
      = cv_ackCallback V cb v (c1\<lparr>cl_ackCallbacks := fmdrop (cl_ackCounter c) (cl_ackCallbacks c1)\<rparr>)
    \<and> client_handleMessage V raw (c1\<lparr>cl_ackCallbacks := fmdrop (cl_ackCounter c) (cl_ackCallbacks c1)\<rparr>)
      = Ok (c1\<lparr>cl_ackCallbacks := fmdrop (cl_ackCounter c) (cl_ackCallbacks c1)\<rparr>)"
proof -
  note st = doEmit_state [OF assms(1)]
  have dec: "decodeAppPayload V (c1\<lparr>cl_ackCallbacks := m\<rparr>) b ev nsp = Ok v" for m
    using assms(4) st by (simp add: decodeAppPayload_def schema_lookup_def split: option.splits if_splits)
  have "decodeAppPayload V c1 b ev nsp = Ok v" using dec [of "cl_ackCallbacks c1"] by simp
  then show ?thesis
    using assms(2,3) st dec by (auto simp: client_handleMessage_def getNamespace_def)
qed

text \<open>
  C21. Acknowledgement ids do not collide: as long as fewer than \<open>2 ^ 32\<close> requests follow one another, the
  \<open>i\<close>-th of them is registered under its own id and none overwrites another.
\<close>

theorem ack_ids_distinct:
  assumes "foldm (\<lambda>(event, payload, cb). doEmit V event payload (Some cb) nsp) reqs c = Ok c'"
    and "length reqs < 2 ^ 32"
  shows "cl_ackCounter c' = cl_ackCounter c + word_of_nat (length reqs)
    \<and> (\<forall>i < length reqs. fmlookup (cl_ackCallbacks c') (cl_ackCounter c + word_of_nat i) = Some (snd (snd (reqs ! i))))"
  using assms
proof (induction reqs arbitrary: c' rule: rev_induct)
  case Nil
  then show ?case by simp
next
  case (snoc req reqs)
  obtain event payload cb where req: "req = (event, payload, cb)" by (cases req)
  from snoc.prems(1) obtain c1 where 1: "foldm (\<lambda>(event, payload, cb). doEmit V event payload (Some cb) nsp) reqs c = Ok c1"
    and 2: "doEmit V event payload (Some cb) nsp c1 = Ok c'"
    by (auto simp: foldm_append req)
  from snoc.IH [OF 1] snoc.prems(2) have IH: "cl_ackCounter c1 = cl_ackCounter c + word_of_nat (length reqs)"
    "\<And>i. i < length reqs \<Longrightarrow> fmlookup (cl_ackCallbacks c1) (cl_ackCounter c + word_of_nat i) = Some (snd (snd (reqs ! i)))"
    by auto
  note st = doEmit_state [OF 2]
  have distinct: "(word_of_nat i :: 32 word) \<noteq> word_of_nat (length reqs)" if "i < length reqs" for i
  proof
    assume eq: "(word_of_nat i :: 32 word) = word_of_nat (length reqs)"
    have "unat (word_of_nat i :: 32 word) = i" "unat (word_of_nat (length reqs) :: 32 word) = length reqs"
      using that snoc.prems(2) by (auto intro!: unat_word_small)
    with eq that show False by simp
  qed
  have "fmlookup (cl_ackCallbacks c') (cl_ackCounter c + word_of_nat i) = Some (snd (snd ((reqs @ [req]) ! i)))"
    if "i < Suc (length reqs)" for i
  proof (cases "i = length reqs")
    case True
    then show ?thesis using st IH(1) by (simp add: req nth_append)
  next
    case False
    with that have i: "i < length reqs" by simp
    then show ?thesis using st IH distinct [OF i] by (simp add: nth_append eq_commute)
  qed
  then show ?case using st IH(1) by (simp add: algebra_simps)
qed

theorem ack_ids_distinct_witness:
  "\<exists>c'. foldm (\<lambda>(event, payload, cb). doEmit (example_env ref_ext) event payload (Some cb) ''/secure-gateway'')
      [(''a'', VNil, 7), (''b'', VNil, 8)] (example_connected ref_ext) = Ok c'
    \<and> fmlookup (cl_ackCallbacks c') 1 = Some 7 \<and> fmlookup (cl_ackCallbacks c') 2 = Some 8"
proof -
  let ?run = "foldm (\<lambda>(event, payload, cb). doEmit (example_env ref_ext) event payload (Some cb) ''/secure-gateway'')
      [(''a'', VNil, 7), (''b'', VNil, 8)] (example_connected ref_ext)"
  have emit: "\<exists>c'. doEmit V event VNil (Some cb) nsp c = Ok c'" for V event cb nsp c
    by (simp add: doEmit_def Let_def send_frame_def)
  obtain c1 where c1: "doEmit (example_env ref_ext) ''a'' VNil (Some 7) ''/secure-gateway'' (example_connected ref_ext) = Ok c1"
    using emit by blast
  obtain c' where "doEmit (example_env ref_ext) ''b'' VNil (Some 8) ''/secure-gateway'' c1 = Ok c'"
    using emit by blast
  with c1 have "?run = Ok c'" by simp
  with ack_ids_distinct [OF this] show ?thesis
    by (auto simp: example_sel All_less_Suc)
qed

text \<open>The provision request of the example, acknowledged twice.\<close>

theorem ack_runs_once_witness:
  "\<exists>c1. doEmit (example_env ref_ext) ''x'' VNil (Some 0) ''/secure-gateway'' (example_connected ref_ext) = Ok c1
    \<and> client_handleMessage (example_env ref_ext) (full_slice (header_bytes FrameAck ''/secure-gateway'' ''x'' 1)) c1
      = Ok (c1\<lparr>cl_ackCallbacks := fmdrop 1 (cl_ackCallbacks c1)\<rparr>)"
proof -
  let ?V = "example_env ref_ext" and ?c = "example_connected ref_ext" and ?n = "''/secure-gateway''"
  let ?raw = "full_slice (header_bytes FrameAck ?n ''x'' 1)"
  obtain c1 where c1: "doEmit ?V ''x'' VNil (Some 0) ?n ?c = Ok c1"
    by (simp add: doEmit_def Let_def send_frame_def)
  have hdr: "DecodeFrameHeader ?raw
      = Ok (\<lparr>fh_Type = FrameAck, fh_Nsp = ?n, fh_Event = ''x'', fh_AckID = cl_ackCounter ?c\<rparr>, \<lparr>sl_data = [], sl_spare = []\<rparr>)"
    using DecodeFrameHeader_header_bytes [of ?raw FrameAck ?n "''x''" 1 "[]"] by (simp add: full_slice_def example_sel)
  have "fmlookup (cl_namespaces ?c) ?n \<noteq> None"
    by (metis example_sel(1) fmdom_notI finsertI1)
  moreover have "decodeAppPayload ?V ?c \<lparr>sl_data = [], sl_spare = []\<rparr> ''x'' ?n = Ok VNil"
    by (simp add: decodeAppPayload_def sl_len_def)
  ultimately have "client_handleMessage ?V ?raw c1
      = cv_ackCallback ?V 0 VNil (c1\<lparr>cl_ackCallbacks := fmdrop (cl_ackCounter ?c) (cl_ackCallbacks c1)\<rparr>)"
    using ack_runs_once [OF c1 hdr] by blast
  with c1 show ?thesis by (simp add: example_sel) (simp add: example_env_def quiet_env_def)
qed

subsection \<open>Reconnection\<close>

text \<open>
  What a disconnect cleans up before any handler runs: the connection, the ticker and the stop channel of
  the heartbeat, and the pong timeout.
\<close>

definition hung_up :: "client \<Rightarrow> client" where
  "hung_up c = c\<lparr>cl_conn := None,
     cl_tickers := (case cl_pingTicker c of None \<Rightarrow> cl_tickers c | Some i \<Rightarrow> removeAll i (cl_tickers c)), cl_pingTicker := None,
     cl_closedChannels := (case cl_stopHeartbeat c of None \<Rightarrow> cl_closedChannels c | Some i \<Rightarrow> i # cl_closedChannels c),
     cl_stopHeartbeat := None,
     cl_timers := (case cl_pongTimer c of None \<Rightarrow> cl_timers c | Some t \<Rightarrow> fmdrop t (cl_timers c)), cl_pongTimer := None\<rparr>"

lemma cleanup_hung_up:
  assumes "client_inv c"
  shows "cleanupHeartbeat (c\<lparr>cl_conn := None\<rparr>) = Ok (hung_up c)"
proof -
  have "\<And>i. cl_stopHeartbeat c = Some i \<Longrightarrow> i \<notin> set (cl_closedChannels c)"
    using assms by (auto simp: client_inv_defs)
  then show ?thesis
    by (cases "cl_stopHeartbeat c"; cases "cl_pingTicker c"; cases "cl_pongTimer c")
       (simp_all add: cleanupHeartbeat_def close_channel_def stop_timer_def stop_ticker_def hung_up_def)
qed

text \<open>The jitter adds less than 300 milliseconds to the exponential delay, under the cap.\<close>

lemma backoff_range:
  assumes "0 \<le> r" and "r < 1"
  shows "\<lfloor>min (of_int base * (3 / 2) ^ n) (of_int maxDelay) :: rat\<rfloor> \<le> backoff base maxDelay n r"
    and "backoff base maxDelay n r \<le> \<lfloor>min (of_int base * (3 / 2) ^ n + 300000000) (of_int maxDelay) :: rat\<rfloor>"
  unfolding backoff_def Millisecond_def by (intro floor_mono min.mono; use assms in simp)+

text \<open>
  C20. After an unexpected disconnect the connection is forgotten and the heartbeat stopped (\<open>hung_up\<close>); then
  the \<open>disconnect\<close> handlers run, and whatever they leave, one reconnection is scheduled exactly when the
  user has not closed the client, reconnecting is on, and attempts are left. It carries the next attempt's
  number \<open>n\<close> and the delay \<open>min (base * 1.5 ^ n + r * 300 ms) max\<close>, where \<open>r\<close> is the random number drawn, and so
  lies between the capped exponential delay without jitter and the one with 300 ms of it.
\<close>

theorem disconnect_schedules:
  assumes "client_inv c" and rand: "\<And>u. 0 \<le> cv_rand V u \<and> cv_rand V u < 1"
    and handlers: "foldm (\<lambda>nsp. triggerEvent V nsp ''disconnect'' VNil)
      (cv_rangeNames V (hung_up c) (fmdom (cl_namespaces c))) (hung_up c) = Ok u"
  shows "let n = cl_reconnectAttempts u + 1;
      exponential = of_int (cl_baseDelay u) * (3 / 2) ^ nat n :: rat;
      delay = \<lfloor>min (exponential + cv_rand V (u\<lparr>cl_reconnectAttempts := n\<rparr>) * 300000000) (of_int (cl_maxDelay u))\<rfloor>
    in client_handleClose V c = Ok (
        if \<not> cl_closedByUser u \<and> cl_autoReconnect u \<and> cl_reconnectAttempts u < cl_maxAttempts u
        then u\<lparr>cl_reconnectAttempts := n, cl_timers := fmupd (cl_fresh u) (Reconnect n delay) (cl_timers u),
          cl_fresh := Suc (cl_fresh u)\<rparr>
        else u)
      \<and> \<lfloor>min exponential (of_int (cl_maxDelay u))\<rfloor> \<le> delay
      \<and> delay \<le> \<lfloor>min (exponential + 300000000) (of_int (cl_maxDelay u))\<rfloor>"
proof -
  let ?n = "cl_reconnectAttempts u + 1"
  let ?r = "cv_rand V (u\<lparr>cl_reconnectAttempts := ?n\<rparr>)"
  have delay: "\<lfloor>min (of_int (cl_baseDelay u) * (3 / 2) ^ nat ?n + ?r * 300000000) (of_int (cl_maxDelay u))\<rfloor>
      = backoff (cl_baseDelay u) (cl_maxDelay u) (nat ?n) ?r"
    by (simp add: backoff_def Millisecond_def mult.commute)
  have "trigger_all V ''disconnect'' VNil (hung_up c) = Ok u"
    using handlers by (simp add: trigger_all_def hung_up_def)
  then have "client_handleClose V c = Ok (
      if \<not> cl_closedByUser u \<and> cl_autoReconnect u \<and> cl_reconnectAttempts u < cl_maxAttempts u
      then executeReconnectionSchedule V u else u)"
    using cleanup_hung_up [OF assms(1)] by (simp add: client_handleClose_def)
  moreover have "executeReconnectionSchedule V u = u\<lparr>cl_reconnectAttempts := ?n,
      cl_timers := fmupd (cl_fresh u) (Reconnect ?n (backoff (cl_baseDelay u) (cl_maxDelay u) (nat ?n) ?r)) (cl_timers u),
      cl_fresh := Suc (cl_fresh u)\<rparr>"
    by (simp add: executeReconnectionSchedule_def Let_def AfterFunc_def)
  ultimately show ?thesis
    unfolding Let_def delay using backoff_range [of ?r] rand by simp
qed

lemma example_channel:
  "cn_middlewares (channel_at (example_client E) nsp) = []"
  "fmlookup (cn_listeners (channel_at (example_client E) ''/secure-gateway'')) ''disconnect'' = Some 2"
  "fmlookup (cn_listeners (channel_at (example_client E) ''/secure-gateway'')) ''reconnecting'' = Some 3"
  "cl_namespaces (example_connected E) = cl_namespaces (example_client E)"
  by (simp_all add: example_client_def client_On_def channel_On_def upd_channel_def channel_at_def newChannel_def
      client_New_def example_options_def Let_def client_newNamespace_def ensureSchemaBucket_def with_bucket_def
      example_connected_def)

text \<open>The example's handlers of \<open>disconnect\<close> and \<open>reconnecting\<close> only log.\<close>

lemma example_logs:
  assumes "cl_namespaces c = cl_namespaces (example_client E)" and "event = ''disconnect'' \<or> event = ''reconnecting''"
  shows "foldm (\<lambda>nsp. triggerEvent (example_env E) nsp event v)
    (cv_rangeNames (example_env E) u (fmdom (cl_namespaces c))) c = Ok c"
proof -
  have "channel_at c nsp = channel_at (example_client E) nsp" for nsp
    using assms(1) by (simp add: channel_at_def)
  then have "triggerEvent (example_env E) ''/secure-gateway'' event v c = Ok c"
    using assms(2) by (auto simp: triggerEvent_def call_handler_def handler_def example_channel example_env_def quiet_env_def)
  moreover have "cv_rangeNames (example_env E) u (fmdom (cl_namespaces c)) = [''/secure-gateway'']"
    using example_sel(1) [of E] assms(1)
    by (simp add: example_channel example_env_def quiet_env_def sorted_list_of_fset.rep_eq)
  ultimately show ?thesis by simp
qed

text \<open>The example's connection fails: its first attempt is scheduled, 1.65 seconds later.\<close>

theorem disconnect_schedules_witness:
  "\<exists>c'. client_handleClose (example_env ref_ext) (example_connected ref_ext) = Ok c' \<and> cl_conn c' = None
    \<and> cl_timers c' = fmupd 0 (Reconnect 1 1650000000) fmempty \<and> cl_reconnectAttempts c' = 1"
proof -
  let ?c = "example_connected ref_ext"
  have "client_inv (example_client ref_ext)"
    by (rule client_reachable_inv [OF example_client_reachable example_env_lawful])
  then have inv: "client_inv ?c" by (simp add: example_connected_def client_inv_defs)
  have rand: "cv_rand (example_env ref_ext) u = 1 / 2" for u by (simp add: example_env_def quiet_env_def)
  have names: "cl_namespaces (hung_up ?c) = cl_namespaces ?c" by (simp add: hung_up_def)
  have handlers: "foldm (\<lambda>nsp. triggerEvent (example_env ref_ext) nsp ''disconnect'' VNil)
      (cv_rangeNames (example_env ref_ext) (hung_up ?c) (fmdom (cl_namespaces ?c))) (hung_up ?c) = Ok (hung_up ?c)"
    using example_logs [of "hung_up ?c" ref_ext "''disconnect''"] names by (simp add: example_channel)
  have sel: "cl_closedByUser (hung_up ?c) = False" "cl_autoReconnect (hung_up ?c)" "cl_reconnectAttempts (hung_up ?c) = 0"
    "cl_maxAttempts (hung_up ?c) = 15" "cl_baseDelay (hung_up ?c) = 1000000000" "cl_maxDelay (hung_up ?c) = 7000000000"
    "cl_timers (hung_up ?c) = fmempty" "cl_fresh (hung_up ?c) = 0" "cl_conn (hung_up ?c) = None"
    by (simp_all add: hung_up_def example_connected_def example_client_def client_On_def channel_On_def upd_channel_def
        client_New_def example_options_def Let_def client_newNamespace_def ensureSchemaBucket_def with_bucket_def
        positive_or_def Second_def)
  show ?thesis
    using disconnect_schedules [OF inv _ handlers] by (simp add: rand sel Let_def)
qed

lemma send_connects:
  assumes "cl_conn c = Some k"
  shows "foldm (\<lambda>nsp c. send_frame V (event_frame FrameConnect nsp [] 0 VNil) (cl_serializers c) c) xs c
    = Ok (c\<lparr>cl_calls := cl_calls c @ map (\<lambda>nsp. (k, WriteMessage (header_bytes FrameConnect (nsp_or_root nsp) [] 0))) xs\<rparr>)"
  using assms
proof (induction xs arbitrary: c)
  case (Cons x xs)
  then show ?case by (simp add: send_frame_def safeSend_def)
qed simp

text \<open>
  C38. The user's \<open>Close\<close> does not stop a reconnection that is already scheduled: its timer stays pending,
  and when it fires, the \<open>reconnecting\<close> handlers run and the client dials; if the dial succeeds the client
  is connected again, with the closed flag set, and joins its namespaces. (User code has no way to clear
  that flag.)
\<close>

theorem close_leaves_reconnect:
  assumes "fmlookup (cl_timers c) t = Some (Reconnect n d)"
    and user: "client_env_keeps cl_closedByUser V"
    and handlers: "foldm (\<lambda>nsp. triggerEvent V nsp ''reconnecting'' (VInt (word_of_int n)))
      (cv_rangeNames V fired (fmdom (cl_namespaces c))) fired = Ok u"
      "fired = (client_Close c)\<lparr>cl_timers := fmdrop t (cl_timers c)\<rparr>"
    and dial: "cv_Dial V u = Some k"
  shows "fmlookup (cl_timers (client_Close c)) t = Some (Reconnect n d)
    \<and> (\<exists>c'. timer_fires V t (client_Close c) = Ok c' \<and> cl_conn c' = Some k \<and> cl_closedByUser c'
      \<and> cl_calls c' = cl_calls u @ map (\<lambda>nsp. (k, WriteMessage (header_bytes FrameConnect (nsp_or_root nsp) [] 0)))
          (filter (\<lambda>nsp. nsp \<noteq> ''/'') (cv_rangeNames V (u\<lparr>cl_conn := Some k, cl_reconnectAttempts := 0\<rparr>)
             (fmdom (cl_namespaces u)))))"
proof -
  have close: "cl_timers (client_Close c) = cl_timers c" "cl_namespaces (client_Close c) = cl_namespaces c"
    "cl_closedByUser (client_Close c)"
    by (simp_all add: client_Close_def close_conn_def split: option.split)
  have "cl_closedByUser u"
    using foldm_keeps [OF triggerEvent_keeps [OF user], THEN keeps_stepD, OF _ handlers(1)] handlers(2) close(3) by simp
  moreover have "trigger_all V ''reconnecting'' (VInt (word_of_int n)) fired = Ok u"
    using handlers close(2) by (simp add: trigger_all_def)
  then have "timer_fires V t (client_Close c) = connect V u"
    using assms(1) handlers(2) close(1) by (simp add: timer_fires_def)
  ultimately show ?thesis
    using assms(1) close(1) dial by (simp add: connect_def Let_def send_connects)
qed

text \<open>The example, closed while its first reconnection is pending.\<close>

theorem close_leaves_reconnect_witness:
  "\<exists>c'. timer_fires (example_env ref_ext) 0
      (client_Close ((example_client ref_ext)\<lparr>cl_timers := fmupd 0 (Reconnect 1 1650000000) fmempty, cl_fresh := 9\<rparr>)) = Ok c'
    \<and> cl_conn c' = Some 9 \<and> cl_closedByUser c'
    \<and> cl_calls c' = [(9, WriteMessage (header_bytes FrameConnect ''/secure-gateway'' [] 0))]"
proof -
  let ?V = "example_env ref_ext"
  let ?c = "(example_client ref_ext)\<lparr>cl_timers := fmupd 0 (Reconnect 1 1650000000) fmempty, cl_fresh := 9\<rparr>"
  let ?f = "(client_Close ?c)\<lparr>cl_timers := fmdrop 0 (cl_timers ?c)\<rparr>"
  have "cl_conn (example_client E) = None" "cl_calls (example_client E) = []" for E
    by (simp_all add: example_client_def client_On_def channel_On_def upd_channel_def
        client_New_def Let_def client_newNamespace_def ensureSchemaBucket_def with_bucket_def)
  then have f: "cl_namespaces ?f = cl_namespaces (example_client ref_ext)" "cl_fresh ?f = 9" "cl_calls ?f = []"
    by (simp_all add: client_Close_def close_conn_def)
  have handlers: "foldm (\<lambda>nsp. triggerEvent ?V nsp ''reconnecting'' (VInt (word_of_int 1)))
      (cv_rangeNames ?V ?f (fmdom (cl_namespaces ?c))) ?f = Ok ?f"
    using example_logs [of ?f ref_ext "''reconnecting''"] f(1) by simp
  have user: "client_env_keeps cl_closedByUser ?V"
    using example_env_keeps doEmit_closed by blast
  have "cv_rangeNames ?V w (fmdom (cl_namespaces ?f)) = [''/secure-gateway'']" for w
    using example_sel(1) [of ref_ext] f(1) by (simp add: example_channel example_env_def quiet_env_def sorted_list_of_fset.rep_eq)
  moreover have "cv_Dial ?V ?f = Some 9" using f(2) by (simp add: example_env_def quiet_env_def)
  ultimately show ?thesis
    using close_leaves_reconnect [where n = 1 and d = 1650000000 and k = 9, OF _ user handlers refl] f(3) by (simp add: nsp_or_root_def)
qed

end
