(* ===== verification/End_To_End.thy ===== *)
theory End_To_End
  imports Server_Properties Client_Properties
begin

text \<open>
  A client and a server of the model, together: what one encodes, the other handles. Each statement takes
  the bytes one side's operation hands to its connection and says what the other side's handler of a
  received message does with them.
\<close>

subsection \<open>Frames from one side to the other\<close>

lemma nsp_or_root_id [simp]: "nsp \<noteq> [] \<Longrightarrow> nsp_or_root nsp = nsp"
  by (simp add: nsp_or_root_def)

text \<open>The header and payload bytes of a frame that was sent.\<close>

lemma sent_frame:
  assumes "EncodeFrame E (event_frame ty nsp ev ack payload) ser = Ok buf"
    and "nsp \<noteq> []" and "length nsp < 256" and "length ev < 256" and "sl_data raw = buf"
  obtains pb where "payload_bytes E ser payload = Ok pb"
    and "DecodeFrameHeader raw = Ok (\<lparr>fh_Type = ty, fh_Nsp = nsp, fh_Event = ev, fh_AckID = ack\<rparr>,
      \<lparr>sl_data = pb, sl_spare = sl_spare raw\<rparr>)"
proof -
  from assms(1) obtain pb where pb: "payload_bytes E ser payload = Ok pb"
    and buf: "buf = header_bytes ty nsp ev ack @ pb"
    using assms(2) by (auto simp: EncodeFrame_layout event_frame_def opts_header_def)
  from that [OF pb] DecodeFrameHeader_header_bytes [of raw "ty" nsp ev ack pb] buf assms(3-5) show thesis
    by simp
qed

text \<open>A payload written with the default serializers inflates to what msgpack wrote.\<close>

lemma sent_default:
  assumes "EncodeFrame E (event_frame ty nsp ev ack v) (Some (DefaultSerializers E)) = Ok buf"
    and "v \<noteq> VNil" and "DefaultEncodePayload E v \<noteq> Ok []" and "flate_inverts E"
    and "nsp \<noteq> []" and "length nsp < 256" and "length ev < 256" and "sl_data raw = buf"
  obtains p pb where "DecodeFrameHeader raw = Ok (\<lparr>fh_Type = ty, fh_Nsp = nsp, fh_Event = ev, fh_AckID = ack\<rparr>,
      \<lparr>sl_data = pb, sl_spare = sl_spare raw\<rparr>)"
    and "mp_Marshal E v = Ok p" and "DefaultEncodePayload E v = Ok pb" and "inflateRaw E pb = Ok p" and "0 < length pb"
proof -
  from sent_frame [OF assms(1,5-8)] obtain pb where pb: "payload_bytes E (Some (DefaultSerializers E)) v = Ok pb"
    and hdr: "DecodeFrameHeader raw = Ok (\<lparr>fh_Type = ty, fh_Nsp = nsp, fh_Event = ev, fh_AckID = ack\<rparr>,
      \<lparr>sl_data = pb, sl_spare = sl_spare raw\<rparr>)" .
  then have enc: "DefaultEncodePayload E v = Ok pb"
    using assms(2) by (simp add: payload_bytes_def DefaultSerializers_def)
  then obtain p where p: "mp_Marshal E v = Ok p" "deflateRaw E p = Ok pb"
    by (auto simp: DefaultEncodePayload_def)
  then have "inflateRaw E pb = Ok p"
    using assms(4) deflateRaw_OkD by (auto simp: flate_inverts_def inflateRaw_def)
  moreover have "0 < length pb" using assms(3) enc by auto
  ultimately show thesis using that [OF hdr p(1) enc] by blast
qed

lemma client_receives_app:
  assumes "DecodeFrameHeader raw = Ok (\<lparr>fh_Type = ty, fh_Nsp = nsp, fh_Event = ev, fh_AckID = ack\<rparr>, b)"
    and "fmlookup (cl_namespaces c) nsp \<noteq> None"
  shows "ty = FrameEvent \<Longrightarrow> client_handleMessage CV raw c =
      (case decodeAppPayload CV c b ev nsp of
         Err e \<Rightarrow> Ok c | Panic q \<Rightarrow> Panic q | Ok v \<Rightarrow> triggerEvent CV nsp ev v c)"
    and "ty = FrameAck \<Longrightarrow> client_handleMessage CV raw c =
      (case decodeAppPayload CV c b ev nsp of
         Err e \<Rightarrow> Ok c
       | Panic q \<Rightarrow> Panic q
       | Ok v \<Rightarrow> (case fmlookup (cl_ackCallbacks c) ack of
            None \<Rightarrow> Ok c
          | Some cb \<Rightarrow> cv_ackCallback CV cb v (c\<lparr>cl_ackCallbacks := fmdrop ack (cl_ackCallbacks c)\<rparr>)))"
  using assms by (auto simp: client_handleMessage_def getNamespace_def split: res.split option.split)

lemma frame_types_distinct [simp]:
  "FrameJoin \<noteq> FramePing" "FrameLeave \<noteq> FrameConnect" "FrameLeave \<noteq> FrameEvent" "FrameLeave \<noteq> FrameJoin"
  by (simp_all add: frame_types)

text \<open>What the server's hub does with a frame for a socket it dispatches to.\<close>

lemma server_receives:
  assumes "DecodeFrameHeader raw = Ok (\<lparr>fh_Type = ty, fh_Nsp = nsp, fh_Event = ev, fh_AckID = ack\<rparr>, b)"
    and "fmlookup (hb_sockets (w_hub w h)) nsp = Some p" and "ty \<noteq> FrameConnect"
    and "(if 0 < sl_len b then hub_decode V w b ev nsp else Ok VNil) = Ok v"
  shows "handleMessage V h raw w =
    dispatch V p \<lparr>fr_Type = ty, fr_Nsp = nsp, fr_Event = ev, fr_AckID = ack, fr_Payload = v\<rparr> w"
proof -
  have "DecodeFrame (ev_ext V) raw (Some (hub_serializers V w))
      = Ok \<lparr>fr_Type = ty, fr_Nsp = nsp, fr_Event = ev, fr_AckID = ack, fr_Payload = v\<rparr>"
    using assms(1,4) by (auto simp: DecodeFrame_def hub_serializers_def Let_def)
  then show ?thesis using assms(2,3) by (simp add: handleMessage_def)
qed

subsection \<open>The example server and client together\<close>

text \<open>The example server with one socket, number 0, connected to its namespace on hub 0.\<close>

definition gateway_world :: "externals \<Rightarrow> world" where
  "gateway_world E = register_socket 0 gateway 0
     (snd (newSocket (secure_env E) 0 gateway blank_handshake (snd (newConnHub blank_handshake (secure_server E)))))"

definition gateway_ns :: namespace where
  "gateway_ns = \<lparr>ns_Name = gateway, ns_sockets = {|0|}, ns_middlewares = [0], ns_connHandlers = [0],
     ns_schemas = fmap_of_list [(''SYNC_TEST'', syncSchema)]\<rparr>"

lemma gateway_world_sel:
  "fmlookup (sv_namespaces (gateway_world E)) gateway = Some gateway_ns"
  "fmlookup (hb_sockets (w_hub (gateway_world E) 0)) gateway = Some 0"
  "so_Nsp (w_socket (gateway_world E) 0) = gateway" "sv_serializers (gateway_world E) = DefaultSerializers E"
  "ns_at (gateway_world E) gateway = gateway_ns"
proof -
  show 1: "fmlookup (sv_namespaces (gateway_world E)) gateway = Some gateway_ns"
    by (simp add: gateway_world_def gateway_ns_def register_socket_def addSocket_def add_member_def newSocket_def
        newConnHub_def secure_server_def ns_OnConnection_def ns_Use_def ns_Schema_def Of_def New_def gateway_def
        Let_def upd_ns_def ns_at_def newNamespace_def syncSchema_def upd_socket_def upd_hub_def)
  then show "ns_at (gateway_world E) gateway = gateway_ns" by (simp add: ns_at_def)
qed (simp_all add: gateway_world_def newSocket_def newConnHub_def secure_server_def ns_OnConnection_def ns_Use_def
    ns_Schema_def Of_def New_def Let_def register_socket_def addSocket_def)

lemma gateway_name: "gateway \<noteq> []" "gateway \<noteq> ''/''" "length gateway < 256"
  by (simp_all add: gateway_def)

lemma example_gateway: "fmlookup (cl_namespaces (example_connected E)) gateway \<noteq> None"
  unfolding gateway_def by (metis example_sel(1) fmdom_notI finsertI1)

definition sync_payload :: goval where
  "sync_payload = VMap (fmap_of_list [(''id'', VUint32 77), (''label'', VString ''node-7'')])"

definition sync_bytes :: "byte list" where
  "sync_bytes = [0, 0, 0, 77, 0, 0, 0, 6] @ str_bytes ''node-7''"

lemma sync_encodes: "schema_EncodePayload E syncSchema sync_payload = Ok sync_bytes"
  by (simp add: EncodePayload_enc_spec syncSchema_def builders sync_payload_def field_value_def fmlookup_of_list
      length_prefixed_def str_bytes_def be32_def sync_bytes_def)

lemma sync_lens: "lens_ok E (sc_Definition syncSchema) sync_payload"
  by (simp add: syncSchema_def builders sync_payload_def field_value_def fmlookup_of_list)

text \<open>The client once it knows the schema.\<close>

definition synced_client :: client where
  "synced_client = put_schema (schemaKey gateway) ''SYNC_TEST'' syncSchema (example_connected ref_ext)"

lemma synced_client_sel:
  "schema_lookup synced_client gateway ''SYNC_TEST'' = Some syncSchema"
  "fmlookup (cl_namespaces synced_client) gateway \<noteq> None"
  using example_gateway [of ref_ext] by (simp_all add: synced_client_def schema_lookup_def put_schema_def table_of_def)

lemma env_ext [simp]: "ev_ext (secure_env E) = E" "cv_ext (example_env E) = E"
  by (simp_all add: secure_env_def base_env_def example_env_def quiet_env_def)

subsection \<open>Schemas\<close>

text \<open>
  The two packages name a namespace's schema table alike: the server's export key is the client's
  lookup key, for every namespace name.
\<close>

lemma keys_agree: "schemaExportKey nsp = schemaKey nsp"
proof (cases nsp)
  case (Cons a as)
  then show ?thesis by (auto simp: schemaExportKey_def schemaKey_def TrimPrefix_def)
qed (simp add: schemaExportKey_def schemaKey_def TrimPrefix_def)

lemma table_of_put [simp]:
  "table_of (cl_schemas (put_schema k n s c)) k' = (if k' = k then fmupd n s (table_of (cl_schemas c) k) else table_of (cl_schemas c) k')"
  by (simp add: put_schema_def table_of_def)

lemma table_of_bucket [simp]: "table_of (cl_schemas (with_bucket k c)) k' = table_of (cl_schemas c) k'"
  by (auto simp: with_bucket_def table_of_def)

lemma absorb_fold_lookup:
  assumes "\<And>e. e \<in> set evs \<Longrightarrow> NewSchema e (g e) = Ok (f e)"
  shows "fmlookup (table_of (cl_schemas (fold (\<lambda>e. absorb_def k e (g e)) evs c)) k) e
      = (if e \<in> set evs then Some (f e) else fmlookup (table_of (cl_schemas c) k) e)
    \<and> fmlookup (cl_flatSchemas (fold (\<lambda>e. absorb_def k e (g e)) evs c)) e
      = (if e \<in> set evs then Some (f e) else fmlookup (cl_flatSchemas c) e)"
  using assms
proof (induction evs rule: rev_induct)
  case (snoc x evs)
  then show ?case by (simp add: absorb_def_def)
qed simp

lemma absorb_table_lookup:
  assumes "ranges (cv_rangeNames CV)"
    and "\<And>e d. fmlookup defs e = Some d \<Longrightarrow> NewSchema e d = Ok (f e)"
    and "fmlookup defs ev = Some d"
  shows "fmlookup (table_of (cl_schemas (absorb_table CV k defs c)) k) ev = Some (f ev)
    \<and> fmlookup (cl_flatSchemas (absorb_table CV k defs c)) ev = Some (f ev)"
proof -
  let ?evs = "cv_rangeNames CV c (fmdom defs)"
  have evs: "set ?evs = fset (fmdom defs)" using assms(1) by (simp add: ranges_def)
  have "NewSchema e (the (fmlookup defs e)) = Ok (f e)" if "e \<in> set ?evs" for e
    using that assms(2) by (auto simp: evs fmlookup_dom_iff)
  moreover have "ev \<in> set ?evs" using assms(3) by (auto simp: evs fmlookup_dom_iff)
  ultimately show ?thesis
    using absorb_fold_lookup [of ?evs "\<lambda>e. the (fmlookup defs e)" f k "with_bucket k c" ev]
    by (simp add: absorb_table_def)
qed

text \<open>
  C5. Auto-discovery works: a client that handles the CONNECT frame a server sends for a sub-namespace
  then knows exactly the server's schema for each of its events, before the \<open>connect\<close> handler runs.
\<close>

theorem schemas_synchronise:
  assumes laws: "msgpack_tokens E" "msgpack_maps E" "flate_inverts E" "ranges (cv_rangeNames CV)"
    and E: "cv_ext CV = E" and nsp: "nsp \<noteq> []" "nsp \<noteq> ''/''" "length nsp < 256"
    and sent: "EncodeFrame E (event_frame FrameConnect nsp [] 0 (exportSchemas ns)) (Some (DefaultSerializers E)) = Ok buf"
    and bytes: "DefaultEncodePayload E (exportSchemas ns) \<noteq> Ok []"
    and fits: "table_fits (cv_stack CV) (fmmap sc_Definition (ns_schemas ns))"
    and names: "\<And>e s. fmlookup (ns_schemas ns) e = Some s \<Longrightarrow> sc_Name s = e \<and> schemaNameRe e"
    and c: "cl_useSchemas c" "fmlookup (cl_namespaces c) nsp \<noteq> None"
  shows "\<exists>c'. client_handleMessage CV (full_slice buf) c =
      andThen (triggerEvent CV nsp ''connect'' VNil c') (\<lambda>c. if nsp = cl_nsp c then setupHeartbeat c else Ok c)
    \<and> (\<forall>ev s. fmlookup (ns_schemas ns) ev = Some s \<longrightarrow>
         schema_lookup c' nsp ev = Some s \<and> GetSchema ev c' = Some s)"
proof -
  let ?tbl = "fmmap sc_Definition (ns_schemas ns)"
  let ?c = "absorb_table CV (schemaKey nsp) ?tbl c"
  have export: "exportSchemas ns = export_table ?tbl"
    by (simp add: exportSchemas_def export_table_def fmap.map_comp comp_def)
  have "exportSchemas ns \<noteq> VNil" "sl_data (full_slice buf) = buf" and spare: "sl_spare (full_slice buf) = []"
    by (simp_all add: exportSchemas_def full_slice_def)
  from sent_default [OF sent this(1) bytes laws(3) nsp(1,3) _ this(2), unfolded spare] obtain p pb
    where hdr: "DecodeFrameHeader (full_slice buf) = Ok (\<lparr>fh_Type = FrameConnect, fh_Nsp = nsp, fh_Event = [], fh_AckID = 0\<rparr>,
        \<lparr>sl_data = pb, sl_spare = []\<rparr>)"
      and p: "mp_Marshal E (exportSchemas ns) = Ok p" "inflateRaw E pb = Ok p" "0 < length pb"
    by (simp del: length_greater_0_conv) blast
  have "DecodeNamespaceSchemaPayload E (cv_stack CV) \<lparr>sl_data = pb, sl_spare = []\<rparr> = Ok ?tbl"
    using export_table_reads_back [OF laws(1,2) fits p(1) [unfolded export], of "[]"] p(2)
    by (simp add: DecodeNamespaceSchemaPayload_def)
  then have "absorbSchemaPayload CV nsp \<lparr>sl_data = pb, sl_spare = []\<rparr> c = Ok ?c"
    using nsp(2) E by (simp add: absorbSchemaPayload_def)
  then have "client_handleMessage CV (full_slice buf) c =
      andThen (triggerEvent CV nsp ''connect'' VNil ?c) (\<lambda>c. if nsp = cl_nsp c then setupHeartbeat c else Ok c)"
    using hdr c p(3) by (auto simp: client_handleMessage_def getNamespace_def sl_len_def)
  moreover have "schema_lookup ?c nsp ev = Some s \<and> GetSchema ev ?c = Some s"
    if s: "fmlookup (ns_schemas ns) ev = Some s" for ev s
  proof -
    have new: "NewSchema e d = Ok (the (fmlookup (ns_schemas ns) e))" if d: "fmlookup ?tbl e = Some d" for e d
    proof -
      obtain t where t: "fmlookup (ns_schemas ns) e = Some t" "d = sc_Definition t" using d by auto
      with names [OF t(1)] show ?thesis by (auto simp: NewSchema_def schemaNameRe_def)
    qed
    show ?thesis
      using absorb_table_lookup [where defs = ?tbl and f = "\<lambda>e. the (fmlookup (ns_schemas ns) e)" and ev = ev
          and d = "sc_Definition s" and k = "schemaKey nsp" and c = c, OF laws(4) new] s
      by (simp add: schema_lookup_def GetSchema_def)
  qed
  ultimately show ?thesis by blast
qed

definition sync_table_bytes :: "byte list" where
  "sync_table_bytes = len_hdr 0x80 16 0xdf 1 @ len_hdr 0xa0 32 0xdb 9 @ str_bytes ''SYNC_TEST'' @
     len_hdr 0x80 16 0xdf 2
     @ len_hdr 0xa0 32 0xdb 2 @ str_bytes ''id'' @ len_hdr 0xa0 32 0xdb 6 @ str_bytes Uint32_t
     @ len_hdr 0xa0 32 0xdb 5 @ str_bytes ''label'' @ len_hdr 0xa0 32 0xdb 6 @ str_bytes String_t"

lemma sync_table_encodes: "DefaultEncodePayload ref_ext (exportSchemas gateway_ns) = Ok sync_table_bytes"
proof -
  have "writeSchemaDef ref_tokens (sc_Definition syncSchema) [] = Ok (drop 11 sync_table_bytes)"
    by (simp add: syncSchema_def builders ref_tokens_def ref_EncodeString_def sync_table_bytes_def
        len_hdr_def str_bytes_def type_tags)
  then have "ref_Marshal (exportSchemas gateway_ns) = Ok sync_table_bytes"
    by (simp add: exportSchemas_def gateway_ns_def marshal_entries_def WireSchemaDef_def fmdom_fmap_of_list
        fmlookup_of_list ref_EncodeString_def sync_table_bytes_def len_hdr_def str_bytes_def)
  then show ?thesis by (simp add: DefaultEncodePayload_def ref_deflate) (simp add: ref_ext_def)
qed

lemma example_ranges: "ranges (cv_rangeNames (example_env E))"
  by (simp add: example_env_def quiet_env_def ranges_sorted)

lemma gateway_table_fits: "table_fits (cv_stack (example_env E)) (fmmap sc_Definition (ns_schemas gateway_ns))"
  by (auto simp: table_fits_def gateway_ns_def fmdom_fmap_of_list fcard.rep_eq fmlookup_of_list example_env_def
      quiet_env_def syncSchema_def builders type_tags elim!: fmranE split: if_splits)

lemma gateway_table_names: "fmlookup (ns_schemas gateway_ns) e = Some s \<Longrightarrow> sc_Name s = e \<and> schemaNameRe e"
  by (auto simp: gateway_ns_def fmlookup_of_list syncSchema_def schemaNameRe_def word_char_def
      char_in_def of_char_def split: if_splits)

lemma example_uses_schemas: "cl_useSchemas (example_connected E)"
  by (simp add: example_connected_def example_client_def client_On_def channel_On_def upd_channel_def client_New_def
      example_options_def Let_def client_newNamespace_def ensureSchemaBucket_def with_bucket_def)

theorem schemas_synchronise_witness:
  "\<exists>buf c'. EncodeFrame ref_ext (event_frame FrameConnect gateway [] 0 (exportSchemas gateway_ns))
      (Some (DefaultSerializers ref_ext)) = Ok buf
    \<and> client_handleMessage (example_env ref_ext) (full_slice buf) (example_connected ref_ext) =
      andThen (triggerEvent (example_env ref_ext) gateway ''connect'' VNil c')
        (\<lambda>c. if gateway = cl_nsp c then setupHeartbeat c else Ok c)
    \<and> GetSchema ''SYNC_TEST'' c' = Some syncSchema"
proof -
  let ?buf = "header_bytes FrameConnect gateway [] 0 @ sync_table_bytes"
  have sent: "EncodeFrame ref_ext (event_frame FrameConnect gateway [] 0 (exportSchemas gateway_ns))
      (Some (DefaultSerializers ref_ext)) = Ok ?buf"
    using sync_table_encodes gateway_name
    by (simp add: EncodeFrame_layout payload_bytes_def event_frame_def opts_header_def DefaultSerializers_def
        exportSchemas_def)
  have bytes: "DefaultEncodePayload ref_ext (exportSchemas gateway_ns) \<noteq> Ok []"
    by (simp add: sync_table_encodes sync_table_bytes_def len_hdr_def)
  have "fmlookup (ns_schemas gateway_ns) ''SYNC_TEST'' = Some syncSchema"
    by (simp add: gateway_ns_def)
  with schemas_synchronise [OF ref_ext_tokens ref_ext_maps ref_ext_flate example_ranges _ gateway_name sent bytes
      gateway_table_fits gateway_table_names example_uses_schemas example_gateway]
  show ?thesis using sent by fastforce
qed

text \<open>The same for the CONNECT frame of the root namespace, which carries every namespace's table.\<close>

lemma absorb_table_other:
  assumes "k' \<noteq> k"
  shows "table_of (cl_schemas (absorb_table CV k' defs c)) k = table_of (cl_schemas c) k"
proof -
  have "table_of (cl_schemas (fold (\<lambda>e. absorb_def k' e (g e)) evs c)) k = table_of (cl_schemas c) k" for g evs c
    using assms by (induction evs arbitrary: c) (simp_all add: absorb_def_def split: res.split)
  then show ?thesis by (simp add: absorb_table_def)
qed

lemma absorb_tables_lookup:
  assumes "ranges (cv_rangeNames CV)"
    and "\<And>k e d. k \<in> set ks \<Longrightarrow> fmlookup (tbl k) e = Some d \<Longrightarrow> NewSchema e d = Ok (f k e)"
    and "k \<in> set ks" and "fmlookup (tbl k) ev = Some d"
  shows "fmlookup (table_of (cl_schemas (fold (\<lambda>k. absorb_table CV k (tbl k)) ks c)) k) ev = Some (f k ev)"
  using assms(2,3)
proof (induction ks rule: rev_induct)
  case (snoc x ks)
  let ?c = "fold (\<lambda>k. absorb_table CV k (tbl k)) ks c"
  show ?case
  proof (cases "x = k")
    case True
    have "NewSchema e d = Ok (f k e)" if "fmlookup (tbl k) e = Some d" for e d
      using snoc.prems(1) that True by simp
    with absorb_table_lookup [OF assms(1) _ assms(4), of "f k" k ?c] True show ?thesis by simp
  next
    case False
    with snoc show ?thesis by (simp add: absorb_table_other)
  qed
qed simp

lemma export_by_map: "export_by V (\<lambda>ns. g (f ns)) w = fmmap g (export_by V f w)"
proof -
  have "fold (\<lambda>n out. fmupd (k n) (g (f (h n))) out) ns (fmmap g m)
      = fmmap g (fold (\<lambda>n out. fmupd (k n) (f (h n)) out) ns m)" for k h ns m
    by (induction ns arbitrary: m) (simp_all flip: fmmap_fmupd)
  from this [of schemaExportKey "ns_at w" "ev_rangeNames V w (fmdom (sv_namespaces w))" fmempty]
  show ?thesis by (simp add: export_by_def)
qed

text \<open>
  C10. The root CONNECT frame synchronises every namespace: a client that handles it then finds, under
  any namespace the server has, each schema that namespace has, as long as no two namespaces of the
  server share an export key.
\<close>

theorem root_schemas_synchronise:
  assumes laws: "msgpack_tokens E" "msgpack_maps E" "flate_inverts E" "ranges (cv_rangeNames CV)" "env_ranges V"
    and E: "cv_ext CV = E" and keys: "inj_on schemaExportKey (fset (fmdom (sv_namespaces w)))"
    and sent: "EncodeFrame E (event_frame FrameConnect ''/'' [] 0 (exportAllSchemas V w)) (Some (DefaultSerializers E)) = Ok buf"
    and bytes: "DefaultEncodePayload E (exportAllSchemas V w) \<noteq> Ok []"
    and fits: "fcard (fmdom (Schemas V w)) < 2 ^ 32"
      "\<And>k tbl. fmlookup (Schemas V w) k = Some tbl \<Longrightarrow>
        length k < 2 ^ 32 \<and> table_fits (cv_stack CV) (fmmap sc_Definition tbl)
        \<and> (\<forall>e s. fmlookup tbl e = Some s \<longrightarrow> sc_Name s = e \<and> schemaNameRe e)"
    and c: "cl_useSchemas c" "fmlookup (cl_namespaces c) ''/'' \<noteq> None"
  shows "\<exists>c'. client_handleMessage CV (full_slice buf) c =
      andThen (triggerEvent CV ''/'' ''connect'' VNil c') (\<lambda>c. if ''/'' = cl_nsp c then setupHeartbeat c else Ok c)
    \<and> (\<forall>nsp ev s. nsp |\<in>| fmdom (sv_namespaces w) \<longrightarrow> schemaFor (ns_at w nsp) ev = Some s \<longrightarrow>
         schema_lookup c' nsp ev = Some s)"
proof -
  let ?tbls = "fmmap (fmmap sc_Definition) (Schemas V w)"
  let ?tbl = "\<lambda>k. the (fmlookup ?tbls k)" and ?names = "cv_rangeNames CV c (fmdom ?tbls)"
  let ?c = "fold (\<lambda>k. absorb_table CV k (?tbl k)) ?names c"
  have "exportSchemas = (\<lambda>ns. export_table (fmmap sc_Definition (ns_schemas ns)))"
    by (simp add: fun_eq_iff exportSchemas_def export_table_def fmap.map_comp comp_def)
  from arg_cong [OF this, of "\<lambda>f. export_by V f w"] have exported: "exportAllSchemas V w = VMap (fmmap export_table ?tbls)"
    unfolding exportAllSchemas_def Schemas_def export_by_map [of V "fmmap sc_Definition" ns_schemas, symmetric]
    by (simp only: export_by_map [of V export_table "\<lambda>ns. fmmap sc_Definition (ns_schemas ns)"])
  then have "exportAllSchemas V w \<noteq> VNil" "sl_data (full_slice buf) = buf" and spare: "sl_spare (full_slice buf) = []"
    by (simp_all add: full_slice_def)
  from sent_default [OF sent this(1) bytes laws(3) _ _ _ this(2), unfolded spare] obtain p pb
    where hdr: "DecodeFrameHeader (full_slice buf) = Ok (\<lparr>fh_Type = FrameConnect, fh_Nsp = ''/'', fh_Event = [], fh_AckID = 0\<rparr>,
        \<lparr>sl_data = pb, sl_spare = []\<rparr>)"
      and enc: "DefaultEncodePayload E (exportAllSchemas V w) = Ok pb" and pb: "0 < length pb"
    by (simp del: length_greater_0_conv) blast
  have "DecodeRootSchemaPayload E (cv_stack CV) \<lparr>sl_data = pb, sl_spare = []\<rparr> = Ok ?tbls"
  proof (rule root_table_reads_back [OF laws(1-3) enc [unfolded exported]])
    fix k tbl assume "fmlookup ?tbls k = Some tbl"
    then show "table_fits (cv_stack CV) tbl" using fits(2) by auto
  qed (use fits in \<open>auto simp: fmlookup_dom_iff\<close>)
  then have "absorbSchemaPayload CV ''/'' \<lparr>sl_data = pb, sl_spare = []\<rparr> c = Ok ?c"
    using E by (simp add: absorbSchemaPayload_def)
  then have "client_handleMessage CV (full_slice buf) c =
      andThen (triggerEvent CV ''/'' ''connect'' VNil ?c) (\<lambda>c. if ''/'' = cl_nsp c then setupHeartbeat c else Ok c)"
    using hdr c pb by (auto simp: client_handleMessage_def getNamespace_def sl_len_def)
  moreover have "schema_lookup ?c nsp ev = Some s"
    if nsp: "nsp |\<in>| fmdom (sv_namespaces w)" and s: "schemaFor (ns_at w nsp) ev = Some s" for nsp ev s
  proof -
    let ?k = "schemaExportKey nsp"
    have names: "set ?names = fset (fmdom (Schemas V w))" using laws(4) by (simp add: ranges_def)
    have look: "fmlookup (Schemas V w) ?k = Some (ns_schemas (ns_at w nsp))"
      unfolding Schemas_def by (rule export_by_lookup [OF laws(5) keys nsp])
    have new: "NewSchema e d = Ok (the (fmlookup (the (fmlookup (Schemas V w) k)) e))"
      if k: "k \<in> set ?names" and d: "fmlookup (?tbl k) e = Some d" for k e d
    proof -
      obtain tbl where tbl: "fmlookup (Schemas V w) k = Some tbl" using k names by (auto simp: fmlookup_dom_iff)
      with d obtain t where "fmlookup tbl e = Some t" "d = sc_Definition t" by auto
      with fits(2) [OF tbl] tbl show ?thesis by (auto simp: NewSchema_def schemaNameRe_def)
    qed
    have "fmlookup (?tbl ?k) ev = Some (sc_Definition s)" using look s by (simp add: schemaFor_def)
    moreover have "?k \<in> set ?names" using look names by (auto simp: fmlookup_dom_iff)
    ultimately have "fmlookup (table_of (cl_schemas ?c) ?k) ev = Some s"
      using absorb_tables_lookup [where tbl = ?tbl and ks = ?names and c = c and f = "\<lambda>k e. the (fmlookup (the (fmlookup (Schemas V w) k)) e)",
          OF laws(4) new] look s by (simp add: schemaFor_def)
    then show ?thesis by (simp add: schema_lookup_def keys_agree)
  qed
  ultimately show ?thesis by blast
qed

text \<open>A server with a schema on \<open>/\<close>, and a client with that namespace.\<close>

definition root_server :: world where
  "root_server = ns_Schema ''/'' [syncSchema] (New ref_ext plain_cfg)"

definition root_client :: client where
  "root_client = (example_connected ref_ext)\<lparr>cl_namespaces := fmap_of_list [(''/'', newChannel ''/'')]\<rparr>"

lemma root_server_sel:
  "fmdom (sv_namespaces root_server) = {|''/''|}" "ns_schemas (ns_at root_server ''/'') = ns_schemas gateway_ns"
  "Schemas (secure_env ref_ext) root_server = fmap_of_list [(''root'', ns_schemas gateway_ns)]"
proof -
  show dom: "fmdom (sv_namespaces root_server) = {|''/''|}"
    by (auto simp: root_server_def ns_Schema_def New_def Of_def)
  show at: "ns_schemas (ns_at root_server ''/'') = ns_schemas gateway_ns"
    by (simp add: root_server_def ns_Schema_def New_def Of_def ns_at_def newNamespace_def gateway_ns_def syncSchema_def)
  have "ev_rangeNames (secure_env ref_ext) root_server {|''/''|} = [''/'']"
    by (simp add: secure_env_def base_env_def sorted_list_of_fset.rep_eq)
  then show "Schemas (secure_env ref_ext) root_server = fmap_of_list [(''root'', ns_schemas gateway_ns)]"
    by (simp add: Schemas_def export_by_def dom at schemaExportKey_def)
qed

definition root_table_bytes :: "byte list" where
  "root_table_bytes = len_hdr 0x80 16 0xdf 1 @ len_hdr 0xa0 32 0xdb 4 @ str_bytes ''root'' @ sync_table_bytes"

lemma root_table_encodes: "DefaultEncodePayload ref_ext (exportAllSchemas (secure_env ref_ext) root_server) = Ok root_table_bytes"
proof -
  have "ev_rangeNames (secure_env ref_ext) root_server {|''/''|} = [''/'']"
    by (simp add: secure_env_def base_env_def sorted_list_of_fset.rep_eq)
  then have "exportAllSchemas (secure_env ref_ext) root_server = VMap (fmap_of_list [(''root'', exportSchemas gateway_ns)])"
    by (simp add: exportAllSchemas_def export_by_def root_server_sel schemaExportKey_def exportSchemas_def)
  moreover have "ref_Marshal (exportSchemas gateway_ns) = Ok sync_table_bytes"
    using sync_table_encodes by (simp add: DefaultEncodePayload_def ref_deflate) (simp add: ref_ext_def)
  ultimately show ?thesis
    by (simp add: DefaultEncodePayload_def ref_deflate)
       (simp add: ref_ext_def marshal_entries_def fmdom_fmap_of_list fmlookup_of_list ref_EncodeString_def root_table_bytes_def
          eval_nat_numeral)
qed

theorem root_schemas_synchronise_witness:
  "\<exists>buf c'. EncodeFrame ref_ext (event_frame FrameConnect ''/'' [] 0 (exportAllSchemas (secure_env ref_ext) root_server))
      (Some (DefaultSerializers ref_ext)) = Ok buf
    \<and> client_handleMessage (example_env ref_ext) (full_slice buf) root_client =
      andThen (triggerEvent (example_env ref_ext) ''/'' ''connect'' VNil c')
        (\<lambda>c. if ''/'' = cl_nsp c then setupHeartbeat c else Ok c)
    \<and> schema_lookup c' ''/'' ''SYNC_TEST'' = Some syncSchema"
proof -
  let ?buf = "header_bytes FrameConnect ''/'' [] 0 @ root_table_bytes"
  have sent: "EncodeFrame ref_ext (event_frame FrameConnect ''/'' [] 0 (exportAllSchemas (secure_env ref_ext) root_server))
      (Some (DefaultSerializers ref_ext)) = Ok ?buf"
    using root_table_encodes
    by (simp add: EncodeFrame_layout payload_bytes_def event_frame_def opts_header_def DefaultSerializers_def
        exportAllSchemas_def)
  have bytes: "DefaultEncodePayload ref_ext (exportAllSchemas (secure_env ref_ext) root_server) \<noteq> Ok []"
    by (simp add: root_table_encodes root_table_bytes_def len_hdr_def)
  have card: "fcard (fmdom (Schemas (secure_env ref_ext) root_server)) < 2 ^ 32"
    by (simp add: root_server_sel fmdom_fmap_of_list fcard.rep_eq)
  have fits: "length k < 2 ^ 32 \<and> table_fits (cv_stack (example_env ref_ext)) (fmmap sc_Definition tbl)
        \<and> (\<forall>e s. fmlookup tbl e = Some s \<longrightarrow> sc_Name s = e \<and> schemaNameRe e)"
    if "fmlookup (Schemas (secure_env ref_ext) root_server) k = Some tbl" for k tbl
    using that gateway_table_fits by (auto simp: root_server_sel fmlookup_of_list gateway_table_names split: if_splits)
  have "inj_on schemaExportKey (fset (fmdom (sv_namespaces root_server)))"
    and ns: "''/'' |\<in>| fmdom (sv_namespaces root_server)" "schemaFor (ns_at root_server ''/'') ''SYNC_TEST'' = Some syncSchema"
    and c: "cl_useSchemas root_client" "fmlookup (cl_namespaces root_client) ''/'' \<noteq> None"
    by (simp_all add: root_server_sel schemaFor_def gateway_ns_def root_client_def example_uses_schemas)
  with root_schemas_synchronise [OF ref_ext_tokens ref_ext_maps ref_ext_flate example_ranges secure_env_ranges _ this(1)
      sent bytes card fits c]
  show ?thesis using sent by fastforce
qed

subsection \<open>Events\<close>

text \<open>What the event chain of a client's namespace comes to, down to the listener.\<close>

lemma triggerEvent_outcome:
  assumes "\<And>m s. behaves (cv_middleware V m) s (v m s)"
  shows "triggerEvent V nsp ev data c =
    (case chain_verdict v (cn_middlewares (channel_at c nsp)) (\<lparr>pk_Event = ev, pk_Payload = data\<rparr>, c) of
       Passes (packet, u) \<Rightarrow>
         (case fmlookup (cn_listeners (channel_at u nsp)) (pk_Event packet) of
            None \<Rightarrow> Ok u | Some f \<Rightarrow> cv_handler V f (pk_Payload packet) u)
     | Rejects e (packet, u) \<Rightarrow> Ok u
     | Drops (packet, u) \<Rightarrow> Ok u)"
proof -
  have eq: "cv_middleware V = of_verdict v"
    using assms by (intro ext [of "cv_middleware V"] behaves_unique)
  show ?thesis
    unfolding triggerEvent_def eq verdict_chain.run_verdict Let_def
    by (cases "chain_verdict v (cn_middlewares (channel_at c nsp)) (\<lparr>pk_Event = ev, pk_Payload = data\<rparr>, c)")
       (auto simp: call_handler_def handler_def andThen_assoc split: option.split)
qed

text \<open>
  C11. An event the server emits with a schema runs the client's handler, when the client has the same
  schema: the bytes the server writes to every open member make the client pass the payload the schema
  carries through its middlewares (that each hand over at most once), and call the listener of the event
  they leave on the payload they leave; a rejection or a drop ends there.
\<close>

theorem event_reaches_client:
  assumes E: "ev_ext V = E" "cv_ext CV = E" "msgpack_decodes E" "env_ranges V"
    and mws: "\<And>m s. behaves (cv_middleware CV m) s (v m s)"
    and nsp: "nsp \<noteq> []" "length nsp < 256" "length ev < 256" "ns_Name (ns_at w nsp) = nsp"
    and schema: "schemaFor (ns_at w nsp) ev = Some s" "schema_lookup c nsp ev = Some s"
    and payload: "payload \<noteq> VNil" "schema_EncodePayload E s payload = Ok pb" "pb \<noteq> []" "lens_ok E (sc_Definition s) payload"
    and c: "fmlookup (cl_namespaces c) nsp = Some ch"
  shows "\<exists>buf. emitExcluding V nsp ev payload ex w
      = Ok (deliver (ffilter (\<lambda>p. Some p \<noteq> ex) (ns_sockets (ns_at w nsp))) buf w)
    \<and> client_handleMessage CV \<lparr>sl_data = buf, sl_spare = spare\<rparr> c =
      (case chain_verdict v (cn_middlewares ch)
          (\<lparr>pk_Event = ev, pk_Payload = coerced E (sc_Definition s) payload\<rparr>, c) of
         Passes (packet, u) \<Rightarrow>
           (case fmlookup (cn_listeners (channel_at u nsp)) (pk_Event packet) of
              None \<Rightarrow> Ok u | Some f \<Rightarrow> cv_handler CV f (pk_Payload packet) u)
       | Rejects e (packet, u) \<Rightarrow> Ok u
       | Drops (packet, u) \<Rightarrow> Ok u)"
proof -
  let ?buf = "header_bytes FrameEvent nsp ev 0 @ pb"
  let ?raw = "\<lparr>sl_data = ?buf, sl_spare = spare\<rparr>"
  have sent: "EncodeFrame E (event_frame FrameEvent nsp ev 0 payload) (Some (serializersFor V w nsp ev)) = Ok ?buf"
    using schema(1) payload(1,2) E(1) nsp(1)
    by (simp add: EncodeFrame_layout payload_bytes_def event_frame_def opts_header_def serializersFor_def)
  have hdr: "DecodeFrameHeader ?raw
      = Ok (\<lparr>fh_Type = FrameEvent, fh_Nsp = nsp, fh_Event = ev, fh_AckID = 0\<rparr>, \<lparr>sl_data = pb, sl_spare = spare\<rparr>)"
    using DecodeFrameHeader_header_bytes [of ?raw FrameEvent nsp ev 0 pb] nsp by simp
  have "schema_DecodePayload E s \<lparr>sl_data = pb, sl_spare = spare\<rparr> = Ok (coerced E (sc_Definition s) payload)"
    by (rule DecodePayload_encoded [OF E(3) payload(2,4), where rest = "[]"]) simp
  then have "client_handleMessage CV ?raw c = triggerEvent CV nsp ev (coerced E (sc_Definition s) payload) c"
    using client_receives_app(1) [OF hdr] c schema(2) E(2) payload(3) by (simp add: decodeAppPayload_def sl_len_def)
  moreover have "channel_at c nsp = ch" using c by (simp add: channel_at_def)
  ultimately show ?thesis
    using sent E(1) nsp(4)
    by (intro exI [of _ ?buf]) (simp add: emitExcluding_deliver [OF E(4)] triggerEvent_outcome [OF mws])
qed

text \<open>A client whose handler of the event joins the namespace that the payload's label names.\<close>

definition joining_env :: "externals \<Rightarrow> client_env" where
  "joining_env E = (quiet_env E)\<lparr>cv_handler := (\<lambda>h data. client_Of (quiet_env E) (toStringVal (at_key data ''label'')))\<rparr>"

definition listening_client :: client where
  "listening_client = channel_On gateway ''SYNC_TEST'' 7 synced_client"

lemma listening_client_sel:
  "schema_lookup listening_client gateway ''SYNC_TEST'' = Some syncSchema"
  "\<exists>ch. fmlookup (cl_namespaces listening_client) gateway = Some ch \<and> cn_middlewares ch = []
    \<and> fmlookup (cn_listeners ch) ''SYNC_TEST'' = Some 7 \<and> channel_at listening_client gateway = ch"
  "cl_conn listening_client = Some 5" "cl_calls listening_client = []"
  "fmlookup (cl_namespaces listening_client) ''node-7'' = None"
proof -
  have names: "cl_namespaces synced_client = cl_namespaces (example_client ref_ext)"
    by (simp add: synced_client_def put_schema_def example_channel)
  then have at: "channel_at synced_client gateway = channel_at (example_client ref_ext) gateway"
    by (simp add: channel_at_def)
  show "schema_lookup listening_client gateway ''SYNC_TEST'' = Some syncSchema"
    using synced_client_sel(1) by (simp add: listening_client_def channel_On_def upd_channel_def schema_lookup_def)
  show "\<exists>ch. fmlookup (cl_namespaces listening_client) gateway = Some ch \<and> cn_middlewares ch = []
    \<and> fmlookup (cn_listeners ch) ''SYNC_TEST'' = Some 7 \<and> channel_at listening_client gateway = ch"
    by (simp add: listening_client_def channel_On_def upd_channel_def at example_channel)
       (simp add: channel_at_def)
  show "cl_conn listening_client = Some 5" "cl_calls listening_client = []"
    by (simp_all add: listening_client_def channel_On_def upd_channel_def synced_client_def put_schema_def example_sel)
  have "''node-7'' |\<notin>| fmdom (cl_namespaces (example_connected ref_ext))" by (simp add: example_sel)
  then show "fmlookup (cl_namespaces listening_client) ''node-7'' = None"
    by (simp add: listening_client_def channel_On_def upd_channel_def names example_channel fmdom_notD gateway_def)
qed

lemma sync_label: "toStringVal (at_key (coerced E (sc_Definition syncSchema) sync_payload) ''label'') = ''node-7''"
  by (simp add: syncSchema_def builders sync_payload_def at_key_def field_value_def fmlookup_of_list)

theorem event_reaches_client_witness:
  "\<exists>buf c'. emitExcluding (secure_env ref_ext) gateway ''SYNC_TEST'' sync_payload None (gateway_world ref_ext)
      = Ok (deliver {|0|} buf (gateway_world ref_ext))
    \<and> client_handleMessage (joining_env ref_ext) \<lparr>sl_data = buf, sl_spare = [1]\<rparr> listening_client = Ok c'
    \<and> cl_calls c' = [(5, WriteMessage (header_bytes FrameConnect ''node-7'' [] 0))]"
proof -
  have mws: "behaves (cv_middleware (joining_env ref_ext) m) s (Passes s)" for m s
    by (simp add: behaves_def joining_env_def quiet_env_def)
  have ext: "cv_ext (joining_env ref_ext) = ref_ext" by (simp add: joining_env_def quiet_env_def)
  have schema: "schemaFor (ns_at (gateway_world ref_ext) gateway) ''SYNC_TEST'' = Some syncSchema"
    and ns: "ns_Name (ns_at (gateway_world ref_ext) gateway) = gateway" "ns_sockets (ns_at (gateway_world ref_ext) gateway) = {|0|}"
    by (simp_all add: gateway_world_sel schemaFor_def gateway_ns_def)
  obtain ch where ch: "fmlookup (cl_namespaces listening_client) gateway = Some ch" "cn_middlewares ch = []"
    "fmlookup (cn_listeners ch) ''SYNC_TEST'' = Some 7" "channel_at listening_client gateway = ch"
    using listening_client_sel(2) by blast
  have bytes: "sync_payload \<noteq> VNil" "sync_bytes \<noteq> []" by (simp_all add: sync_payload_def sync_bytes_def)
  have handled: "\<exists>c'. cv_handler (joining_env ref_ext) 7 (coerced ref_ext (sc_Definition syncSchema) sync_payload) listening_client = Ok c'
      \<and> cl_calls c' = [(5, WriteMessage (header_bytes FrameConnect ''node-7'' [] 0))]"
    using listening_client_sel(3-5)
    by (simp add: joining_env_def sync_label)
       (simp add: client_Of_def Let_def client_newNamespace_def ensureSchemaBucket_def with_bucket_def send_frame_def
         safeSend_def nsp_or_root_def)
  have "ffilter (\<lambda>p. Some p \<noteq> None) S = S" for S :: "sid fset" by auto
  moreover obtain buf where buf: "emitExcluding (secure_env ref_ext) gateway ''SYNC_TEST'' sync_payload None (gateway_world ref_ext)
        = Ok (deliver (ffilter (\<lambda>p. Some p \<noteq> None) (ns_sockets (ns_at (gateway_world ref_ext) gateway))) buf (gateway_world ref_ext))"
      and recv: "client_handleMessage (joining_env ref_ext) \<lparr>sl_data = buf, sl_spare = [1]\<rparr> listening_client =
        (case chain_verdict (\<lambda>m. Passes) (cn_middlewares ch)
            (\<lparr>pk_Event = ''SYNC_TEST'', pk_Payload = coerced ref_ext (sc_Definition syncSchema) sync_payload\<rparr>, listening_client) of
           Passes (packet, u) \<Rightarrow>
             (case fmlookup (cn_listeners (channel_at u gateway)) (pk_Event packet) of
                None \<Rightarrow> Ok u | Some f \<Rightarrow> cv_handler (joining_env ref_ext) f (pk_Payload packet) u)
         | Rejects e (packet, u) \<Rightarrow> Ok u
         | Drops (packet, u) \<Rightarrow> Ok u)"
    using event_reaches_client [where ex = None and spare = "[1]" and v = "\<lambda>m. Passes", OF secure_env_ext ext ref_ext_decodes
        secure_env_ranges mws gateway_name(1,3) _ ns(1) schema listening_client_sel(1) bytes(1) sync_encodes bytes(2) sync_lens ch(1)]
    by (simp only: list.size) fastforce
  moreover from recv have "client_handleMessage (joining_env ref_ext) \<lparr>sl_data = buf, sl_spare = [1]\<rparr> listening_client
      = cv_handler (joining_env ref_ext) 7 (coerced ref_ext (sc_Definition syncSchema) sync_payload) listening_client"
    by (simp only: ch chain_verdict.simps verdict.case prod.case event_packet.select_convs option.case)
  ultimately show ?thesis using handled ns(2) by metis
qed

text \<open>
  C12. An event the client emits with a schema runs the server's listener: \<open>doEmit\<close> writes one message to
  the client's connection and registers the callback, if there is one, under the next acknowledgement id;
  on those bytes the server's hub passes the payload the schema carries through the middlewares of the
  socket it dispatches that namespace to (that each hand over at most once), and calls the listener of the
  event they leave on the payload they leave, with an acknowledgement function that answers under exactly
  that id; a rejection is answered under it.
\<close>

theorem event_reaches_server:
  assumes E: "ev_ext V = E" "cv_ext CV = E" "msgpack_decodes E"
    and mws: "\<And>m s. behaves (ev_socketMiddleware V m) s (v m s)"
    and nsp: "nsp \<noteq> []" "length nsp < 256" "length ev < 256"
    and schema: "schema_lookup c nsp ev = Some s" "fmlookup (sv_namespaces w) nsp = Some ns" "schemaFor ns ev = Some s"
    and payload: "payload \<noteq> VNil" "schema_EncodePayload E s payload = Ok pb" "pb \<noteq> []" "lens_ok E (sc_Definition s) payload"
    and conn: "cl_conn c = Some k"
    and hub: "fmlookup (hb_sockets (w_hub w h)) nsp = Some p" "so_Nsp (w_socket w p) = nsp"
  shows "let ident = (case cb of None \<Rightarrow> 0 | Some f \<Rightarrow> cl_ackCounter c);
      reply = (\<lambda>event resp u.
           case EncodeFrame E (event_frame FrameAck (so_Nsp (w_socket u p)) event ident resp) (Some (sv_serializers u)) of
             Ok buf \<Rightarrow> Ok (deliver {|p|} buf u) | Err _ \<Rightarrow> Ok u | Panic q \<Rightarrow> Panic q)
    in \<exists>c' buf. doEmit CV ev payload cb nsp c = Ok c' \<and> cl_calls c' = cl_calls c @ [(k, WriteMessage buf)]
      \<and> cl_ackCallbacks c' = (case cb of None \<Rightarrow> cl_ackCallbacks c | Some f \<Rightarrow> fmupd ident f (cl_ackCallbacks c))
      \<and> handleMessage V h \<lparr>sl_data = buf, sl_spare = spare\<rparr> w =
        (case chain_verdict v (so_middlewares (w_socket w p))
            (\<lparr>pk_Event = ev, pk_Payload = coerced E (sc_Definition s) payload\<rparr>, w) of
           Passes (packet, u) \<Rightarrow>
             (case fmlookup (so_listeners (w_socket u p)) (pk_Event packet) of
                None \<Rightarrow> Ok u
              | Some f \<Rightarrow> ev_eventHandler V f (pk_Payload packet)
                  (if ident = 0 then None else Some (reply (pk_Event packet))) u)
         | Rejects e (packet, u) \<Rightarrow>
             if ident = 0 then Ok u else reply ''error'' (message_payload (ev_Error V e)) u
         | Drops (packet, u) \<Rightarrow> Ok u)"
proof -
  define ident where "ident = (case cb of None \<Rightarrow> 0 | Some f \<Rightarrow> cl_ackCounter c)"
  let ?buf = "header_bytes FrameEvent nsp ev ident @ pb"
  let ?raw = "\<lparr>sl_data = ?buf, sl_spare = spare\<rparr>"
  let ?c = "case cb of None \<Rightarrow> c | Some f \<Rightarrow> c\<lparr>cl_ackCallbacks := fmupd (cl_ackCounter c) f (cl_ackCallbacks c), cl_ackCounter := cl_ackCounter c + 1\<rparr>"
  have emit: "doEmit CV ev payload cb nsp c = Ok (?c\<lparr>cl_calls := cl_calls c @ [(k, WriteMessage ?buf)]\<rparr>)"
    using schema(1) payload(1,2) E(2) nsp(1) conn
    by (cases cb) (simp_all add: doEmit_def Let_def schema_lookup_def send_frame_def safeSend_def EncodeFrame_layout
        payload_bytes_def event_frame_def opts_header_def ident_def)
  have hdr: "DecodeFrameHeader ?raw
      = Ok (\<lparr>fh_Type = FrameEvent, fh_Nsp = nsp, fh_Event = ev, fh_AckID = ident\<rparr>, \<lparr>sl_data = pb, sl_spare = spare\<rparr>)"
    using DecodeFrameHeader_header_bytes [of ?raw FrameEvent nsp ev ident pb] nsp by simp
  have "schema_DecodePayload E s \<lparr>sl_data = pb, sl_spare = spare\<rparr> = Ok (coerced E (sc_Definition s) payload)"
    by (rule DecodePayload_encoded [OF E(3) payload(2,4), where rest = "[]"]) simp
  then have "handleMessage V h ?raw w = dispatch V p \<lparr>fr_Type = FrameEvent, fr_Nsp = nsp, fr_Event = ev,
      fr_AckID = ident, fr_Payload = coerced E (sc_Definition s) payload\<rparr> w"
    using schema(2,3) E(1) payload(3) by (intro server_receives [OF hdr hub(1)]) (simp_all add: hub_decode_def sl_len_def)
  then have "handleMessage V h ?raw w = processEvent V p \<lparr>fr_Type = FrameEvent, fr_Nsp = nsp, fr_Event = ev,
      fr_AckID = ident, fr_Payload = coerced E (sc_Definition s) payload\<rparr> w"
    using hub(2) by (simp add: dispatch_def)
  note handled = this [unfolded processEvent_outcome [OF mws] frame.select_convs Let_def E(1)]
  have "cl_ackCallbacks ?c = (case cb of None \<Rightarrow> cl_ackCallbacks c | Some f \<Rightarrow> fmupd ident f (cl_ackCallbacks c))"
    by (cases cb) (simp_all add: ident_def)
  then show ?thesis
    unfolding Let_def ident_def [symmetric]
    by (intro exI [of _ "?c\<lparr>cl_calls := cl_calls c @ [(k, WriteMessage ?buf)]\<rparr>"] exI [of _ ?buf] conjI)
       (rule emit, simp, simp, rule handled)
qed

text \<open>A handler that joins its socket, number 0, to the room the payload's label names, and acknowledges.\<close>

definition label_env :: "externals \<Rightarrow> env" where
  "label_env E = (base_env E)\<lparr>ev_eventHandler :=
     (\<lambda>f payload ack w. call_ack ack (VBool True) (Join 0 (toStringVal (at_key payload ''label'')) w))\<rparr>"

definition label_world :: world where
  "label_world = socket_On 0 ''SYNC_TEST'' 7 (gateway_world ref_ext)"

lemma label_world_sel:
  "fmlookup (sv_namespaces label_world) gateway = Some gateway_ns"
  "fmlookup (hb_sockets (w_hub label_world 0)) gateway = Some 0" "so_Nsp (w_socket label_world 0) = gateway"
  "sv_serializers label_world = DefaultSerializers ref_ext" "so_middlewares (w_socket label_world 0) = []"
  "fmlookup (so_listeners (w_socket label_world 0)) ''SYNC_TEST'' = Some 7"
  "so_closed (w_socket label_world 0) = False" "so_hub (w_socket label_world 0) = 0" "hb_calls (w_hub label_world 0) = []"
proof -
  have "so_middlewares (w_socket (gateway_world E) 0) = []" "so_closed (w_socket (gateway_world E) 0) = False"
    "so_hub (w_socket (gateway_world E) 0) = 0" "hb_calls (w_hub (gateway_world E) 0) = []" for E
    by (simp_all add: gateway_world_def newSocket_def newConnHub_def Let_def register_socket_def addSocket_def
        secure_server_def ns_OnConnection_def ns_Use_def ns_Schema_def Of_def New_def)
  then show "so_middlewares (w_socket label_world 0) = []" "so_closed (w_socket label_world 0) = False"
    "so_hub (w_socket label_world 0) = 0" "hb_calls (w_hub label_world 0) = []"
    by (simp_all add: label_world_def socket_On_def)
qed (simp_all add: label_world_def socket_On_def gateway_world_sel)

lemma true_encodes:
  "EncodeFrame ref_ext (event_frame FrameAck gateway ev ack (VBool True)) (Some (DefaultSerializers ref_ext))
    = Ok (header_bytes FrameAck gateway ev ack @ [0xc3])"
proof -
  have "DefaultEncodePayload ref_ext (VBool True) = Ok [0xc3]"
    by (simp add: DefaultEncodePayload_def ref_deflate) (simp add: ref_ext_def)
  then show ?thesis
    using gateway_name by (simp add: EncodeFrame_layout payload_bytes_def event_frame_def opts_header_def DefaultSerializers_def)
qed

text \<open>The client's first request, id 1: its handler joins the room \<open>node-7\<close> and answers under 1.\<close>

theorem event_reaches_server_witness:
  "\<exists>c' buf w'. doEmit (example_env ref_ext) ''SYNC_TEST'' sync_payload (Some 4) gateway synced_client = Ok c'
    \<and> cl_calls c' = [(5, WriteMessage buf)] \<and> fmlookup (cl_ackCallbacks c') 1 = Some 4
    \<and> handleMessage (label_env ref_ext) 0 \<lparr>sl_data = buf, sl_spare = []\<rparr> label_world = Ok w'
    \<and> ''node-7'' |\<in>| so_rooms (w_socket w' 0)
    \<and> hb_calls (w_hub w' 0) = [WriteMessage (header_bytes FrameAck gateway ''SYNC_TEST'' 1 @ [0xc3])]"
proof -
  have mws: "behaves (ev_socketMiddleware (label_env ref_ext) m) s (Passes s)" for m s
    by (simp add: behaves_def label_env_def base_env_def)
  have ext: "ev_ext (label_env ref_ext) = ref_ext" by (simp add: label_env_def base_env_def)
  have schema: "schemaFor gateway_ns ''SYNC_TEST'' = Some syncSchema"
    by (simp add: schemaFor_def gateway_ns_def)
  have c: "cl_conn synced_client = Some 5" "cl_calls synced_client = []" "cl_ackCounter synced_client = 1"
    by (simp_all add: synced_client_def put_schema_def example_sel)
  have bytes: "sync_payload \<noteq> VNil" "sync_bytes \<noteq> []" by (simp_all add: sync_payload_def sync_bytes_def)
  define payload where "payload = coerced ref_ext (sc_Definition syncSchema) sync_payload"
  have label: "toStringVal (at_key payload ''label'') = ''node-7''" by (simp add: payload_def sync_label)
  let ?reply = "\<lambda>resp u. case EncodeFrame ref_ext (event_frame FrameAck (so_Nsp (w_socket u 0)) ''SYNC_TEST'' 1 resp)
      (Some (sv_serializers u)) of Ok buf \<Rightarrow> Ok (deliver {|0|} buf u) | Err _ \<Rightarrow> Ok u | Panic q \<Rightarrow> Panic q"
  have handled: "\<exists>w'. ev_eventHandler (label_env ref_ext) 7 payload (Some ?reply) label_world = Ok w'
    \<and> ''node-7'' |\<in>| so_rooms (w_socket w' 0)
    \<and> hb_calls (w_hub w' 0) = [WriteMessage (header_bytes FrameAck gateway ''SYNC_TEST'' 1 @ [0xc3])]"
    by (simp add: label_env_def call_ack_def label Join_def join_room_def label_world_sel true_encodes deliver_one)
  have name: "length ''SYNC_TEST'' < 256" by simp
  note reaches = event_reaches_server [where cb = "Some 4" and spare = "[]" and v = "\<lambda>m. Passes", OF ext env_ext(2)
      ref_ext_decodes mws gateway_name(1,3) name synced_client_sel(1) label_world_sel(1) schema bytes(1) sync_encodes bytes(2)
      sync_lens c(1) label_world_sel(2,3), unfolded Let_def option.case c label_world_sel(5) chain_verdict.simps verdict.case
      prod.case event_packet.select_convs label_world_sel(6), folded payload_def]
  then obtain c' buf where "doEmit (example_env ref_ext) ''SYNC_TEST'' sync_payload (Some 4) gateway synced_client = Ok c'"
    "cl_calls c' = [(5, WriteMessage buf)]" "cl_ackCallbacks c' = fmupd 1 4 (cl_ackCallbacks synced_client)"
    "handleMessage (label_env ref_ext) 0 \<lparr>sl_data = buf, sl_spare = []\<rparr> label_world
        = ev_eventHandler (label_env ref_ext) 7 payload (Some ?reply) label_world"
    unfolding append_Nil by (elim exE conjE) (simp only: one_neq_zero if_False)
  moreover from this(3) have "fmlookup (cl_ackCallbacks c') 1 = Some 4" by simp
  ultimately show ?thesis using handled by (metis (no_types, lifting))
qed

text \<open>
  C18. The acknowledgement of an event that has a schema is misread: the server writes it with its own
  serializers, the client reads it with the event's schema. What the callback gets is that schema's
  reading of compressed msgpack, and where the schema's decoder panics, so does the client.
\<close>

theorem schema_ack_misread:
  assumes E: "cv_ext CV = E" and nsp: "nsp \<noteq> []" "length nsp < 256" "length ev < 256"
    and server: "so_Nsp (w_socket w p) = nsp" "ev_ext V = E" "sv_serializers w = DefaultSerializers E"
    and bytes: "resp \<noteq> VNil" "DefaultEncodePayload E resp = Ok pb" "pb \<noteq> []"
    and client: "schema_lookup c nsp ev = Some s" "fmlookup (cl_namespaces c) nsp \<noteq> None"
  shows "\<exists>buf. ack_function V p ev ack resp w = Ok (socket_send p buf w)
    \<and> client_handleMessage CV (full_slice buf) c =
      (case schema_DecodePayload E s (full_slice pb) of
         Err e \<Rightarrow> Ok c
       | Panic q \<Rightarrow> Panic q
       | Ok v \<Rightarrow> (case fmlookup (cl_ackCallbacks c) ack of
            None \<Rightarrow> Ok c
          | Some cb \<Rightarrow> cv_ackCallback CV cb v (c\<lparr>cl_ackCallbacks := fmdrop ack (cl_ackCallbacks c)\<rparr>)))"
proof -
  let ?buf = "header_bytes FrameAck nsp ev ack @ pb"
  have sent: "EncodeFrame E (event_frame FrameAck nsp ev ack resp) (Some (DefaultSerializers E)) = Ok ?buf"
    using bytes nsp(1) by (simp add: EncodeFrame_layout payload_bytes_def event_frame_def opts_header_def DefaultSerializers_def)
  have "DecodeFrameHeader (full_slice ?buf) = Ok (\<lparr>fh_Type = FrameAck, fh_Nsp = nsp, fh_Event = ev, fh_AckID = ack\<rparr>, full_slice pb)"
    using DecodeFrameHeader_header_bytes [of "full_slice ?buf" FrameAck nsp ev ack pb] nsp by (simp add: full_slice_def)
  note recv = client_receives_app(2) [OF this client(2) refl]
  have "decodeAppPayload CV c (full_slice pb) ev nsp = schema_DecodePayload E s (full_slice pb)"
    using bytes(3) client(1) E by (simp add: decodeAppPayload_def sl_len_def full_slice_def)
  with recv sent server show ?thesis
    by (intro exI [of _ ?buf]) (simp add: ack_function_def)
qed

text \<open>
  The quick start of the README: the acknowledgement \<open>{"status": 200}\<close> of the event \<open>SYNC_TEST\<close>.
\<close>

theorem schema_ack_misread_witness:
  "\<exists>buf. ack_function (secure_env ref_ext) 0 ''SYNC_TEST'' 1 (text_map ''status'' (VUint8 200)) (gateway_world ref_ext)
      = Ok (socket_send 0 buf (gateway_world ref_ext))
    \<and> client_handleMessage (example_env ref_ext) (full_slice buf) synced_client = Panic SliceOutOfRange"
proof -
  let ?pb = "[0x81, 0xa6] @ str_bytes ''status'' @ [0xcc, 200]"
  have "ref_Marshal (text_map ''status'' (VUint8 200)) = Ok ?pb"
    by (simp add: text_map_def marshal_entries_def fmdom_fmap_of_list fmlookup_of_list ref_EncodeString_def
        len_hdr_def str_bytes_def)
  then have pb: "DefaultEncodePayload ref_ext (text_map ''status'' (VUint8 200)) = Ok ?pb"
    by (simp add: DefaultEncodePayload_def ref_deflate) (simp add: ref_ext_def)
  have "schema_DecodePayload ref_ext syncSchema (full_slice ?pb) = Panic SliceOutOfRange"
    by (simp add: schema_DecodePayload_def syncSchema_def builders get_u32_def get_be_def sl_len_def full_slice_def
        of_be32_def read_lp_def sl_range_def sl_cap_def Let_def str_bytes_def)
  with schema_ack_misread [where ev = "''SYNC_TEST''" and ack = 1, OF env_ext(2) gateway_name(1,3) _ gateway_world_sel(3)
      env_ext(1) gateway_world_sel(4) _ pb _ synced_client_sel]
  show ?thesis by (simp add: text_map_def)
qed

text \<open>
  C39. A client's \<open>Join\<close> puts its socket, and only it, into the room on the server: \<open>Join\<close> writes one message
  to the client's connection, and handling it adds the room to the rooms of the socket the hub
  dispatches that namespace to, and changes nothing else.
\<close>

theorem join_reaches_server:
  assumes E: "ev_ext V = E" "cv_ext CV = E" "msgpack_decodes E" "flate_inverts E"
    and nsp: "nsp \<noteq> []" "length nsp < 256"
    and client: "cl_conn c = Some k" "cl_serializers c = DefaultSerializers E"
    and server: "sv_serializers w = DefaultSerializers E" "fmlookup (sv_namespaces w) nsp = Some ns" "schemaFor ns [] = None"
    and msgpack: "request = VMap (fmap_of_list [(''room'', VString room)])" "msgpack_value E request = request"
      "DefaultEncodePayload E request = Ok pb" "pb \<noteq> []"
    and hub: "fmlookup (hb_sockets (w_hub w h)) nsp = Some p" "so_Nsp (w_socket w p) = nsp"
  shows "\<exists>buf. channel_Join CV nsp room c = Ok (c\<lparr>cl_calls := cl_calls c @ [(k, WriteMessage buf)]\<rparr>)
    \<and> handleMessage V h \<lparr>sl_data = buf, sl_spare = spare\<rparr> w
      = Ok (w\<lparr>w_socket := (w_socket w)(p := (w_socket w p)\<lparr>so_rooms := finsert room (so_rooms (w_socket w p))\<rparr>)\<rparr>)"
proof -
  let ?buf = "header_bytes FrameJoin nsp [] 0 @ pb"
  let ?raw = "\<lparr>sl_data = ?buf, sl_spare = spare\<rparr>" and ?b = "\<lparr>sl_data = pb, sl_spare = spare\<rparr>"
  have "room_payload room = request" "request \<noteq> VNil" by (simp_all add: msgpack(1) room_payload_def)
  then have joined: "channel_Join CV nsp room c = Ok (c\<lparr>cl_calls := cl_calls c @ [(k, WriteMessage ?buf)]\<rparr>)"
    using msgpack(3) nsp(1) client E(2)
    by (simp add: channel_Join_def doJoin_def send_frame_def safeSend_def EncodeFrame_layout payload_bytes_def
        event_frame_def opts_header_def DefaultSerializers_def)
  have hdr: "DecodeFrameHeader ?raw = Ok (\<lparr>fh_Type = FrameJoin, fh_Nsp = nsp, fh_Event = [], fh_AckID = 0\<rparr>, ?b)"
    using DecodeFrameHeader_header_bytes [of ?raw FrameJoin nsp "[]" 0 pb] nsp by simp
  have "DefaultDecodePayload E ?b = Ok request"
    using default_payload.dec_enc [of E request pb ?b] E(3,4) msgpack(2,3) by simp
  then have "(if 0 < sl_len ?b then hub_decode V w ?b [] nsp else Ok VNil) = Ok request"
    using server msgpack(4) by (simp add: hub_decode_def sl_len_def DefaultSerializers_def)
  from server_receives [OF hdr hub(1) _ this]
  have "handleMessage V h ?raw w = Ok (Join p room w)"
    using hub(2) msgpack(1) by (simp add: dispatch_def roomFromPayload_def frame_types fmlookup_of_list)
  then show ?thesis
    using joined by (intro exI [of _ ?buf]) (simp add: Join_def join_room_def upd_socket_def)
qed

text \<open>The reference libraries, with a decoder that knows the map of a join request.\<close>

definition join_ext :: externals where
  "join_ext = ref_ext\<lparr>mp_Unmarshal := (\<lambda>b. if ref_Marshal (room_payload ''GRPC'') = Ok b then Ok (room_payload ''GRPC'')
     else ref_Unmarshal b)\<rparr>"

definition join_bytes :: "byte list" where
  "join_bytes = [0x81, 0xa4] @ str_bytes ''room'' @ [0xa4] @ str_bytes ''GRPC''"

lemma join_ext_encodes: "mp_Marshal join_ext (room_payload ''GRPC'') = Ok join_bytes"
    "DefaultEncodePayload join_ext (room_payload ''GRPC'') = Ok join_bytes"
proof -
  show 1: "mp_Marshal join_ext (room_payload ''GRPC'') = Ok join_bytes"
    by (simp add: join_ext_def ref_ext_def room_payload_def marshal_entries_def fmdom_fmap_of_list fmlookup_of_list
        ref_EncodeString_def len_hdr_def str_bytes_def join_bytes_def)
  show "DefaultEncodePayload join_ext (room_payload ''GRPC'') = Ok join_bytes"
    by (simp add: DefaultEncodePayload_def 1 deflateRaw_def) (simp add: join_ext_def ref_ext_def ref_tokens_def)
qed

theorem join_reaches_server_witness:
  "\<exists>c' buf w'. channel_Join (example_env join_ext) gateway ''GRPC'' (example_connected join_ext) = Ok c'
    \<and> cl_calls c' = [(5, WriteMessage buf)]
    \<and> handleMessage (secure_env join_ext) 0 \<lparr>sl_data = buf, sl_spare = []\<rparr> (gateway_world join_ext) = Ok w'
    \<and> ''GRPC'' |\<in>| so_rooms (w_socket w' 0)"
proof -
  have decodes: "msgpack_decodes join_ext" and flate: "flate_inverts join_ext"
    using ref_ext_decodes ref_ext_flate
    by (auto simp: msgpack_decodes_def flate_inverts_def join_ext_def ref_ext_def)
  have request: "room_payload ''GRPC'' = VMap (fmap_of_list [(''room'', VString ''GRPC'')])"
    by (simp add: room_payload_def)
  have mvalue: "msgpack_value join_ext (room_payload ''GRPC'') = room_payload ''GRPC''"
    unfolding msgpack_value_def join_ext_encodes(1)
    using join_ext_encodes(1) by (simp add: join_ext_def ref_ext_def)
  have schema: "schemaFor gateway_ns [] = None" by (simp add: schemaFor_def gateway_ns_def)
  have "join_bytes \<noteq> []" by (simp add: join_bytes_def)
  from join_reaches_server [where spare = "[]", OF env_ext decodes flate gateway_name(1,3) example_sel(2,4)
      gateway_world_sel(4,1) schema request mvalue join_ext_encodes(2) this gateway_world_sel(2,3)]
  obtain buf where "channel_Join (example_env join_ext) gateway ''GRPC'' (example_connected join_ext)
      = Ok ((example_connected join_ext)\<lparr>cl_calls := cl_calls (example_connected join_ext) @ [(5, WriteMessage buf)]\<rparr>)"
    "handleMessage (secure_env join_ext) 0 \<lparr>sl_data = buf, sl_spare = []\<rparr> (gateway_world join_ext)
      = Ok ((gateway_world join_ext)\<lparr>w_socket := (w_socket (gateway_world join_ext))(0 := (w_socket (gateway_world join_ext) 0)
          \<lparr>so_rooms := finsert ''GRPC'' (so_rooms (w_socket (gateway_world join_ext) 0))\<rparr>)\<rparr>)" by blast
  then show ?thesis by (simp add: example_sel)
qed

text \<open>The server answers a ping on \<open>/\<close> with a pong on \<open>/\<close>, whatever namespaces the client has.\<close>

lemma ping_answered_on_root:
  assumes "sl_data raw = header_bytes FramePing ''/'' [] 0"
    and "fmlookup (hb_sockets (w_hub w h)) ''/'' = Some p" and "so_Nsp (w_socket w p) = ''/''"
  shows "handleMessage V h raw w = Ok (socket_send p (header_bytes FramePong ''/'' [] 0) w)"
proof -
  have "DecodeFrameHeader raw = Ok (\<lparr>fh_Type = FramePing, fh_Nsp = ''/'', fh_Event = [], fh_AckID = 0\<rparr>,
      \<lparr>sl_data = [], sl_spare = sl_spare raw\<rparr>)"
    using DecodeFrameHeader_header_bytes [of raw FramePing "''/''" "[]" 0 "[]"] assms(1) by simp
  from server_receives [OF this assms(2), of V VNil] show ?thesis
    using assms(3) by (simp add: dispatch_def sl_len_def)
qed

text \<open>
  C40. The heartbeat's round trip: the ping a client with a \<open>/\<close> namespace sends makes the server write one
  pong, and handling that pong stops the timeout the ping armed, so the connection stays open.
\<close>

theorem heartbeat_round_trip:
  assumes client: "fmlookup (cl_namespaces c) ''/'' \<noteq> None" "cl_conn c = Some k"
      "cv_WriteMessage CV c (header_bytes FramePing ''/'' [] 0) = None"
    and server: "fmlookup (hb_sockets (w_hub w h)) ''/'' = Some p" "so_Nsp (w_socket w p) = ''/''"
  shows "\<exists>c1 c2 t ping pong. heartbeat_tick CV c = Ok c1
    \<and> cl_calls c1 = cl_calls c @ [(k, WriteMessage ping)] \<and> fmlookup (cl_timers c1) t = Some PongTimeout
    \<and> handleMessage V h (full_slice ping) w = Ok (socket_send p pong w)
    \<and> client_handleMessage CV (full_slice pong) c1 = Ok c2
    \<and> fmlookup (cl_timers c2) t = None \<and> cl_pongTimer c2 = None \<and> cl_conn c2 = Some k"
proof -
  let ?ping = "header_bytes FramePing ''/'' [] 0" and ?pong = "header_bytes FramePong ''/'' [] 0"
  from pong_clears_timeout [OF client, of "full_slice ?pong"] obtain c1 c2 t
    where "heartbeat_tick CV c = Ok c1" "fmlookup (cl_timers c1) t = Some PongTimeout"
      "cl_calls c1 = cl_calls c @ [(k, WriteMessage ?ping)]" "client_handleMessage CV (full_slice ?pong) c1 = Ok c2"
      "cl_pongTimer c2 = None" "fmlookup (cl_timers c2) t = None" "cl_conn c2 = Some k"
    by (auto simp: full_slice_def)
  moreover have "handleMessage V h (full_slice ?ping) w = Ok (socket_send p ?pong w)"
    by (rule ping_answered_on_root [OF _ server]) (simp add: full_slice_def)
  ultimately show ?thesis by blast
qed

theorem heartbeat_round_trip_witness:
  "\<exists>c1 c2 ping pong. heartbeat_tick (example_env ref_ext)
      ((example_connected ref_ext)\<lparr>cl_namespaces := fmap_of_list [(''/'', newChannel ''/'')]\<rparr>) = Ok c1
    \<and> handleMessage (secure_env ref_ext) 0 (full_slice ping) first_accepted = Ok (socket_send 0 pong first_accepted)
    \<and> client_handleMessage (example_env ref_ext) (full_slice pong) c1 = Ok c2 \<and> cl_conn c2 = Some 5"
proof -
  let ?c = "(example_connected ref_ext)\<lparr>cl_namespaces := fmap_of_list [(''/'', newChannel ''/'')]\<rparr>"
  have "fmlookup (cl_namespaces ?c) ''/'' \<noteq> None" "cl_conn ?c = Some 5"
    "cv_WriteMessage (example_env ref_ext) ?c (header_bytes FramePing ''/'' [] 0) = None"
    by (simp_all add: example_sel example_env_def quiet_env_def)
  moreover have "fmlookup (hb_sockets (w_hub first_accepted 0)) ''/'' = Some 0" "so_Nsp (w_socket first_accepted 0) = ''/''"
    by (simp_all add: first_accepted_def first_connection_sel)
  ultimately show ?thesis
    using heartbeat_round_trip [of ?c 5 "example_env ref_ext" first_accepted 0 0 "secure_env ref_ext"] by blast
qed

end
