(* ===== verification/Safety_Properties.thy ===== *)
theory Safety_Properties
  imports Panic_Freedom End_To_End
begin

text \<open>
  What can end a process: exactly which received messages make the server or the client panic, when user
  code and libraries do not.
\<close>

subsection \<open>The example programs are safe\<close>

lemma ref_tokens_write_safe: "no_panic (writeSchemaDef ref_tokens d out)"
proof -
  have "E = ref_tokens \<Longrightarrow> no_panic (writeSchemaDef E d out)" for E
  proof (induction E d out rule: writeSchemaDef.induct)
    case (3 E fs out)
    have "no_panic (mp_EncodeMapLen E n)" "no_panic (mp_EncodeString E k)" for n k
      using 3(2) by (simp_all add: ref_tokens_def ref_EncodeString_def)
    with 3 show ?case
      by (auto simp del: no_panic_simps intro!: no_panic_andThen no_panic_foldm split: field_def.split)
  qed (auto simp: ref_tokens_def ref_EncodeString_def)
  then show ?thesis by simp
qed

lemma ref_ext_safe: "externals_safe ref_ext"
proof -
  have entries: "no_panic (marshal_entries m)" if "\<And>r. r \<in> fmran' m \<Longrightarrow> no_panic r" for m
    using that
    by (auto simp: marshal_entries_def Let_def ref_EncodeString_def fmlookup_dom_iff fmran'I
        intro!: no_panic_foldm no_panic_andThen)
  have "no_panic (ref_Marshal v)" for v
  proof (induction v)
    case (VMap m)
    then have "no_panic (marshal_entries (fmmap ref_Marshal m))" by (intro entries) auto
    then show ?case by simp
  qed (simp_all add: ref_EncodeString_def ref_tokens_write_safe)
  moreover have "no_panic (ref_DecodeString b)" for b
    by (auto simp: ref_DecodeString_def read_hdr_def intro!: no_panic_andThen split: list.split)
  ultimately show ?thesis
    by (auto simp: externals_safe_def ref_ext_def ref_tokens_def ref_Unmarshal_def no_panic_iff
        split: list.split res.split)
qed

lemma secure_env_safe:
  assumes "externals_safe E"
  shows "env_safe (secure_env E)"
  unfolding env_safe_def
proof (intro conjI allI impI)
  fix m p show "safe_middleware calm (ev_connMiddleware (secure_env E) m p)"
    by (auto simp: safe_middleware_def safe_step_def secure_env_def base_env_def check_token_def)
next
  fix f p show "safe_step calm (ev_connHandler (secure_env E) f p)"
    by (simp add: safe_step_def secure_env_def on_connection_def socket_OnSchema_def socket_On_def)
next
  fix m show "safe_middleware (\<lambda>s. calm (snd s)) (ev_socketMiddleware (secure_env E) m)"
    by (simp add: safe_middleware_def secure_env_def base_env_def)
next
  fix f payload and ack :: "(goval \<Rightarrow> world step) option" assume ack: "\<forall>a resp. ack = Some a \<longrightarrow> safe_step calm (a resp)"
  have emit: "safe_step calm (toExcluding (base_env E) nsp room event v ex)" for nsp room event v ex
    by (rule toExcluding_safe) (simp add: base_env_def assms)
  have call: "safe_step calm (call_ack ack resp)" for resp
    using ack by (cases ack) (simp_all add: safe_step_def call_ack_def)
  have "safe_at calm (Emitter_Emit (server_To (base_env E) ''GRPC'' nsp w') event v w)" if "calm w" for nsp w' event v w
    using safe_stepD [OF emit that] that by (simp add: Emitter_Emit_def server_To_def ns_To_def Let_def split: option.split)
  then have "safe_step calm (on_provision E p payload ack)" for p
    unfolding on_provision_def Let_def
    by (intro safe_stepI safe_andThen [where I = calm]) (simp_all add: safe_stepD [OF call])
  moreover have "safe_step calm (on_sync E p payload ack)" for p
    using safe_stepD [OF emit] by (auto simp: on_sync_def Emitter_Emit_def socket_To_def Let_def intro!: safe_stepI)
  ultimately show "safe_step calm (ev_eventHandler (secure_env E) f payload ack)"
    by (simp add: secure_env_def)
qed

lemma example_env_safe:
  assumes "externals_safe E"
  shows "client_env_safe (example_env E)"
proof -
  have "safe_step client_calm (client_EmitAck (quiet_env E) event payload cb)" for event payload cb
    unfolding safe_step_def client_EmitAck_def channel_EmitAck_def
    by (auto intro!: safe_stepD [OF doEmit_safe] simp: quiet_env_def assms)
  then show ?thesis
    by (auto simp: client_env_safe_def example_env_def quiet_env_def safe_step_def safe_middleware_def)
qed

lemma synced_client_calm: "client_inv synced_client" "serializers_safe (cl_serializers synced_client)"
proof -
  have "client_inv (example_client ref_ext)"
    by (rule client_reachable_inv [OF example_client_reachable example_env_lawful])
  then show "client_inv synced_client"
    by (rule same_core_inv) (simp add: synced_client_def put_schema_def example_connected_def same_core_def)
  show "serializers_safe (cl_serializers synced_client)"
    using default_serializers_safe [OF ref_ext_safe] by (simp add: synced_client_def put_schema_def example_sel)
qed

text \<open>One byte of a payload that the schema of the example cannot read.\<close>

lemma sync_truncated: "schema_DecodePayload E syncSchema (full_slice [0]) = Panic IndexOutOfRange"
  by (simp add: schema_DecodePayload_def syncSchema_def builders get_u32_def get_be_def sl_len_def full_slice_def)

definition truncated_event :: slice where
  "truncated_event = full_slice (header_bytes FrameEvent gateway ''SYNC_TEST'' 0 @ [0])"

lemma truncated_event_header:
  "DecodeFrameHeader truncated_event
    = Ok (\<lparr>fh_Type = FrameEvent, fh_Nsp = gateway, fh_Event = ''SYNC_TEST'', fh_AckID = 0\<rparr>, full_slice [0])"
  using DecodeFrameHeader_header_bytes [of truncated_event FrameEvent gateway "''SYNC_TEST''" 0 "[0]"] gateway_name
  by (simp add: truncated_event_def full_slice_def)

subsection \<open>What panics\<close>

text \<open>
  C6. The server and arbitrary bytes: if user code and libraries do not panic, a received message panics
  exactly when it is a frame, of any type, with a payload, whose namespace and event have a schema that
  panics on that payload. The connection need not be in that namespace, nor accepted at all.
\<close>

theorem server_panics_only_in_schemas:
  assumes "env_safe V" and "serializers_safe (sv_serializers w)"
  shows "handleMessage V h raw w = Panic q \<longleftrightarrow>
    (\<exists>hdr b ns s. DecodeFrameHeader raw = Ok (hdr, b) \<and> 0 < sl_len b
       \<and> fmlookup (sv_namespaces w) (fh_Nsp hdr) = Some ns \<and> schemaFor ns (fh_Event hdr) = Some s
       \<and> schema_DecodePayload (ev_ext V) s b = Panic q)"
  using assms by (simp add: handleMessage_panic calm_def hub_decode_panic)

theorem server_panics_only_in_schemas_witness:
  "handleMessage (secure_env ref_ext) 7 truncated_event (gateway_world ref_ext) = Panic IndexOutOfRange"
proof -
  have ser: "serializers_safe (sv_serializers (gateway_world ref_ext))"
    using default_serializers_safe [OF ref_ext_safe] by (simp add: gateway_world_sel)
  have "schemaFor gateway_ns ''SYNC_TEST'' = Some syncSchema" by (simp add: schemaFor_def gateway_ns_def)
  then show ?thesis
    using server_panics_only_in_schemas [OF secure_env_safe [OF ref_ext_safe] ser, of 7 truncated_event IndexOutOfRange]
      truncated_event_header gateway_world_sel(1) [of ref_ext] sync_truncated [of ref_ext]
    by (simp add: sl_len_def full_slice_def)
qed

text \<open>
  C7. The client and arbitrary bytes: if user code and libraries do not panic, a received message panics
  exactly when it is a frame with a payload in a namespace the client has, and either it is a CONNECT
  whose schema definitions panic the reader (by their depth), or an event or acknowledgement whose event
  has a schema that panics on the payload.
\<close>

theorem client_panics_only_in_schemas:
  assumes "client_env_safe V" and "client_inv c" and "serializers_safe (cl_serializers c)"
  shows "client_handleMessage V raw c = Panic q \<longleftrightarrow>
    (\<exists>hdr b. DecodeFrameHeader raw = Ok (hdr, b) \<and> fmlookup (cl_namespaces c) (fh_Nsp hdr) \<noteq> None \<and> 0 < sl_len b
       \<and> (if fh_Type hdr = FrameConnect
          then cl_useSchemas c \<and> (if fh_Nsp hdr = ''/'' then DecodeRootSchemaPayload (cv_ext V) (cv_stack V) b = Panic q
                  else DecodeNamespaceSchemaPayload (cv_ext V) (cv_stack V) b = Panic q)
          else fh_Type hdr \<in> {FrameEvent, FrameAck}
            \<and> (\<exists>s. schema_lookup c (fh_Nsp hdr) (fh_Event hdr) = Some s \<and> schema_DecodePayload (cv_ext V) s b = Panic q)))"
proof (cases "DecodeFrameHeader raw")
  case (Ok hb)
  obtain hdr b where hb: "hb = (hdr, b)" by (cases hb)
  have calm: "client_calm c" using assms(2,3) by (simp add: client_calm_def)
  show ?thesis
  proof (cases "getNamespace c (fh_Nsp hdr)")
    case None
    with Ok hb show ?thesis by (simp add: client_handleMessage_def getNamespace_def)
  next
    case (Some n)
    then have "getNamespace c (fh_Nsp hdr) \<noteq> None" by simp
    from client_handleMessage_panic [OF assms(1) calm Ok [unfolded hb] this]
    show ?thesis using Ok hb Some
      by (auto simp: absorb_panic decodeAppPayload_panic [OF calm] getNamespace_def)
  qed
next
  case (Panic q')
  then show ?thesis using DecodeFrameHeader_no_panic [of raw] by simp
qed (simp add: client_handleMessage_def)

theorem client_panics_only_in_schemas_witness:
  "client_handleMessage (example_env ref_ext) truncated_event synced_client = Panic IndexOutOfRange"
  using client_panics_only_in_schemas [OF example_env_safe [OF ref_ext_safe] synced_client_calm, of truncated_event IndexOutOfRange]
    truncated_event_header synced_client_sel sync_truncated [of ref_ext]
  by (simp add: sl_len_def full_slice_def frame_types)

end
