(* ===== verification/Example_Combined.thy ===== *)
theory Example_Combined
  imports Server_Properties
begin

text \<open>
  \<open>examples/combine_server_c/main.go\<close>: a server on the root namespace whose only handler, of the event
  \<open>step4\<close>, answers everyone with \<open>step5\<close> and acknowledges. Output to the terminal is left out. The
  handler captures no socket, so it is one function value.
\<close>

definition on_step4 :: "externals \<Rightarrow> goval \<Rightarrow> (goval \<Rightarrow> world step) option \<Rightarrow> world step" where
  "on_step4 E payload ack w =
     andThen (ns_Emit (base_env E) ''/'' ''step5'' (text_map ''msg'' (VString ''hello from golang server C'')) w)
       (call_ack ack (text_map ''ok'' (VBool True)))"

definition combined_env :: "externals \<Rightarrow> env" where
  "combined_env E = (base_env E)\<lparr>ev_connHandler := (\<lambda>f p w. Ok (socket_On p ''step4'' 0 w)),
     ev_eventHandler := (\<lambda>f. on_step4 E)\<rparr>"

definition combined_server :: "externals \<Rightarrow> world" where
  "combined_server E = ns_OnConnection ''/'' 0 (Of ''/'' (New E
     \<lparr>cfg_Port = 0, cfg_Serializers = None, cfg_UseSchemas = None, cfg_CORSOrigins = [],
      cfg_ReadBufferSize = 0, cfg_WriteBufferSize = 0\<rparr>))"

lemma combined_ranges: "env_ranges (combined_env E)"
  by (simp add: env_ranges_def combined_env_def base_env_def ranges_sorted)

context store_law begin

lemma combined_env_obeys: "env_obeys R (combined_env E)"
  unfolding env_obeys_def
proof (intro conjI allI impI)
  fix m p w show "keeps_middleware (R w) (ev_connMiddleware (combined_env E) m p)"
    by (simp add: combined_env_def base_env_def check_token_keeps)
next
  fix f p show "obeys R (ev_connHandler (combined_env E) f p)"
    by (simp add: combined_env_def obeys_def R_listeners)
next
  fix m w show "keeps_middleware (\<lambda>s. R w (snd s)) (ev_socketMiddleware (combined_env E) m)"
    by (simp add: keeps_middleware_def combined_env_def base_env_def)
next
  fix f payload and ack :: "(goval \<Rightarrow> world step) option" assume ack: "\<forall>a resp. ack = Some a \<longrightarrow> obeys R (a resp)"
  have "obeys R (call_ack ack resp)" for resp
    using ack by (cases ack) (simp_all add: obeys_def call_ack_def R_refl)
  from obeysD [OF this] have "obeys R (on_step4 E payload ack)"
    using obeysD [OF R_emit(1) [OF base_env_ranges]] R_trans
    by (fastforce simp: obeys_def on_step4_def ns_Emit_def)
  then show "obeys R (ev_eventHandler (combined_env E) f payload ack)" by (simp add: combined_env_def)
qed

end

lemma combined_env_lawful: "env_lawful (combined_env E)" and combined_env_retains: "env_retains (combined_env E)"
  by (simp_all add: env_lawful_def env_retains_def invariant_law.combined_env_obeys member_law.combined_env_obeys)

text \<open>Every open socket of the root namespace gets \<open>step5\<close> once, before the acknowledgement is sent.\<close>

lemma step4_broadcasts:
  assumes "sv_serializers w = DefaultSerializers E" and "schemaFor (ns_at w ''/'') ''step5'' = None"
    and "ns_Name (ns_at w ''/'') = ''/''"
    and "DefaultEncodePayload E (text_map ''msg'' (VString ''hello from golang server C'')) = Ok pb"
  shows "on_step4 E payload ack w = call_ack ack (text_map ''ok'' (VBool True))
    (deliver (ns_sockets (ns_at w ''/'')) (header_bytes FrameEvent ''/'' ''step5'' 0 @ pb) w)"
proof -
  have "ffilter (\<lambda>p. Some p \<noteq> None) S = S" for S :: "sid fset" by auto
  moreover have "EncodeFrame E (event_frame FrameEvent ''/'' ''step5'' 0 (text_map ''msg'' (VString ''hello from golang server C'')))
      (Some (DefaultSerializers E)) = Ok (header_bytes FrameEvent ''/'' ''step5'' 0 @ pb)"
    using assms(4) by (simp add: EncodeFrame_layout payload_bytes_def event_frame_def opts_header_def DefaultSerializers_def
        text_map_def nsp_or_root_def)
  ultimately show ?thesis
    using assms(1-3)
    by (simp add: on_step4_def ns_Emit_def emitExcluding_deliver [OF base_env_ranges] serializersFor_def)
       (simp add: base_env_def)
qed

end
