(* ===== verification/Spec2Isabelle.thy ===== *)
theory Spec2Isabelle
  imports Safety_Properties Example_Combined
begin

text \<open>
  BitSocket for Go: a verification development of the module \<open>github.com/ananay-nag/bit-socket-go\<close>.

  \<^bold>\<open>The program.\<close> A client and a server exchange binary frames over one WebSocket per connection. A
  connection carries any number of namespaces; in each, the server has a socket for the connection, the
  socket is in rooms, and events, acknowledgements and heartbeats travel as frames. A payload is written
  either with the default serializers (msgpack, then raw DEFLATE) or, for an event with a declared
  schema, positionally. The server sends its schemas in the CONNECT frame, so that the client decodes
  events of a schema it was never given.

  \<^bold>\<open>Theories and code.\<close>
  \<^item> \<open>Go_Prelude\<close>: outcomes of a Go function (value, \<open>error\<close>, panic), loops with early exit, strings as
    bytes, slices with their capacity, buffers written in place. \<open>Big_Endian\<close>: \<open>encoding/binary\<close>.
    \<open>Go_Float\<close>: numeric conversions on IEEE bit patterns.
  \<^item> \<open>Go_Value\<close>: \<open>protocol/constants.go\<close>, \<open>types.go\<close>, \<open>coerce.go\<close>. A payload is a \<open>goval\<close>, one constructor
    per dynamic type; a schema's type tree is a \<open>schema_def\<close>. Its record \<open>externals\<close> is what the code calls
    in the msgpack and DEFLATE packages.
  \<^item> \<open>Schema_Codec\<close>: \<open>protocol/schema.go\<close>, its two encoding passes over a buffer with an offset, its
    decoder over a slice. \<open>Schema_Correct\<close> relates them to the layout \<open>enc_spec\<close>; \<open>Schema_Roundtrip\<close> to what
    the wire carries, \<open>coerced\<close>; \<open>Schema_Safety\<close> says how far a decode reads and when it panics.
  \<^item> \<open>Frame_Codec\<close>: \<open>protocol/protocol.go\<close>, \<open>compress.go\<close>, \<open>encoder.go\<close>, \<open>decoder.go\<close>. The interface of a
    payload codec is the locale \<open>payload_codec\<close>, interpreted on the schema codec and on the default one.
  \<^item> \<open>Schema_Wire\<close>: \<open>protocol/schema_wire.go\<close>, over the token operations of the msgpack package.
  \<^item> \<open>Reference_Libs\<close>: concrete library functions, on which the laws assumed of \<open>externals\<close> hold; used
    by witnesses only.
  \<^item> \<open>Middleware_Chain\<close>: what both packages share. A function value is an identifier (\<open>fid\<close>), an effect a
    step on a store (\<open>'s step\<close>), a middleware a function of its continuation. \<open>run_chain\<close> is the loop
    all three middleware chains of the program contain; the locale \<open>middleware_chain\<close> is its contract.
  \<^item> \<open>Server_State\<close>, \<open>Server_Namespace\<close>, \<open>Server_Hub\<close>, \<open>Server_Core\<close>: \<open>server/types.go\<close>, \<open>socket.go\<close>,
    \<open>namespace.go\<close>, \<open>hub.go\<close>, \<open>server.go\<close>. The store \<open>world\<close> holds the server's fields, its namespaces by
    name, and the sockets and hubs by address; the calls made on a connection are recorded on its hub, in
    order. The record \<open>env\<close> is the user's code. The locale \<open>membership\<close> is the contract of the program's
    sets, interpreted on the rooms of a socket and on the sockets of a namespace.
  \<^item> \<open>Server_Laws\<close>: the locale \<open>store_law\<close>, the interface between the store and a relation every operation
    obeys, user code included. \<open>Server_Invariant\<close>: the invariant \<open>server_inv\<close>, the locale's two instances (the
    invariant is kept, members are retained), and \<open>server_step\<close>, the steps of the server's goroutines in any
    interleaving. \<open>Server_Properties\<close>: properties of the server.
  \<^item> \<open>Example_Server\<close>, \<open>Example_Combined\<close>: \<open>examples/server/main.go\<close> and \<open>examples/combine_server_c/main.go\<close> as
    user code of the model.
  \<^item> \<open>Client_State\<close>, \<open>Client_Core\<close>: \<open>client/types.go\<close>, \<open>namespace.go\<close>, \<open>client.go\<close>. The store \<open>client\<close> holds
    the client's fields, its namespaces by name, the calls made on its connections, the running tickers,
    pending timers and closed channels; \<open>client_env\<close> is the user's code and the network.
    \<open>Client_Invariant\<close>: the invariant \<open>client_inv\<close> and \<open>client_step\<close>, the steps of the client's goroutines
    and timers. \<open>Client_Properties\<close>: properties of the client, and \<open>examples/client/main.go\<close>.
  \<^item> \<open>End_To_End\<close>: a client and a server together: what one encodes, the other handles.
  \<^item> \<open>Panic_Freedom\<close>, \<open>Safety_Properties\<close>: which received bytes can make either side panic, through every
    operation a message reaches.

  \<^bold>\<open>What is shown.\<close> The schema codec writes the documented layout and reads it back; a frame's header
  codec is total and exact; schema definitions and tables survive the wire with their field order. In
  every reachable state of the server its hubs, namespaces and sockets agree; emits reach exactly the
  members they are meant for; connections, events and origins pass their gates only when these allow it;
  closing removes exactly the connection's sockets, and nothing else removes a member. The client's heartbeat and reconnection never panic,
  keep their bounds and schedule what they should; an acknowledgement runs its callback once. Across both:
  schemas synchronise, for one namespace and for all; events, joins and heartbeats arrive. No bytes make
  either side panic but through the decoder of a schema (on a client also of schema definitions). Where
  the code falls short of this, a theorem says how: truncated payloads, over-reads, long names, deep definitions, repeated and late connections,
  acknowledgements of events with a schema, pongs away from \<open>/\<close>, closing while a reconnection is pending.

  \<^bold>\<open>Laws assumed of libraries\<close> (each a named definition, shown of \<open>Reference_Libs\<close>): msgpack decodes what
  it encoded, tokens and whole values, consumes what it reads, and gives a map code a length; inflating
  inverts deflating; ranging over a map visits each key once, in any order; failures are errors, not panics
  (\<open>externals_safe\<close>). \<^bold>\<open>Of user code\<close>: it changes the store only as the package's operations do
  (\<open>env_lawful\<close>, \<open>env_retains\<close>, \<open>client_lawful\<close>, \<open>client_env_keeps\<close>) and does not panic itself
  (\<open>env_safe\<close>, \<open>client_env_safe\<close>); shown of the example programs.

  \<^bold>\<open>Fuel.\<close> The depth argument of \<open>decodeSchemaDef\<close> and its callers is the stack: running out of it is the
  panic \<open>StackOverflow\<close>. One more frame than the inflated payload has bytes is enough for every payload. No other
  definition has fuel.

  \<^bold>\<open>Not modelled.\<close> The work of \<open>net/http\<close> and of the websocket package (serving a listener, upgrading a
  request, reading from a connection): I/O, which enters as arguments (whether listening and an upgrade
  succeed, the messages read). Log lines. Data races: a step of a goroutine is taken as atomic where the
  code locks per field. In particular \<open>safeSend\<close> is one step here, while \<open>client/client.go\<close> calls
  \<open>WriteMessage\<close> outside its lock, and the websocket package panics on concurrent writes. Heap exhaustion
  by huge element counts, so the allocation of a definition's fields cannot fail. Payload values that
  msgpack writes but cannot read back (maps whose keys are not strings). A \<open>next\<close> or an acknowledgement
  function kept for later is a step of its own in \<open>server_step\<close> (\<open>chain\<close>, \<open>refuse\<close>, \<open>event_chain\<close>,
  \<open>event_refuse\<close>, \<open>acknowledge\<close>). The backoff is exact where the code rounds to \<open>float64\<close>; time is the
  order of steps. Of the examples, \<open>combine_client_a\<close>, whose handlers create a second client for a server in another language.
\<close>

end
